theory Spec2Isabelle
  imports Complex_Main
begin

section \<open>Python values and exceptions\<close>

text \<open>
  Task arguments and results travel as JSON (\<open>task_serializer='json'\<close>,
  \<open>result_serializer='json'\<close>), so a value is one of the JSON shapes. A float is
  represented by the exact rational it denotes: Python rounds a true division to the
  nearest double and raises OverflowError when the quotient of two integers is outside
  the range of a double, the model keeps the exact quotient, and the statements below
  only name float values that a double represents exactly. \<open>PExc\<close> is an exception
  object held as a value (the error a result record carries).
\<close>

datatype exc =
    ZeroDivisionError string
  | TypeError string
  | KeyError string
  | Exception pyval
  | UnknownTaskKind string
  | Timeout string
and pyval =
    PNone
  | PInt int
  | PFloat rat
  | PStr string
  | PList "pyval list"
  | PDict "(string \<times> pyval) list"
  | PExc exc

text \<open>
  \<open>str(e)\<close> of an exception: its message; a \<open>KeyError\<close> prints the repr of its key, and
  an \<open>Exception(v)\<close> prints \<open>str(v)\<close>. Python's builtin \<open>str\<close> on an arbitrary value is
  not part of the repository: it is the parameter \<open>py_str\<close>.
\<close>

fun str_exc :: "(pyval \<Rightarrow> string) \<Rightarrow> exc \<Rightarrow> string" where
  "str_exc py_str (ZeroDivisionError m) = m"
| "str_exc py_str (TypeError m) = m"
| "str_exc py_str (KeyError k) = CHR 0x27 # k @ [CHR 0x27]"
| "str_exc py_str (Exception v) = py_str v"
| "str_exc py_str (UnknownTaskKind k) = k"
| "str_exc py_str (Timeout m) = m"

text \<open>The comparison \<open>y == 0\<close>: true of the integer and of the float zero only.\<close>

fun eq_zero :: "pyval \<Rightarrow> bool" where
  "eq_zero (PInt i) = (i = 0)"
| "eq_zero (PFloat q) = (q = 0)"
| "eq_zero _ = False"

text \<open>The comparison \<open>v == "error"\<close> against a string literal.\<close>

fun eq_str :: "pyval \<Rightarrow> string \<Rightarrow> bool" where
  "eq_str (PStr s) t = (s = t)"
| "eq_str _ t = False"

text \<open>\<open>x + y\<close>: numbers add, strings and lists concatenate, anything else is a TypeError.\<close>

fun py_add :: "pyval \<Rightarrow> pyval \<Rightarrow> exc + pyval" where
  "py_add (PInt a) (PInt b) = Inr (PInt (a + b))"
| "py_add (PInt a) (PFloat b) = Inr (PFloat (of_int a + b))"
| "py_add (PFloat a) (PInt b) = Inr (PFloat (a + of_int b))"
| "py_add (PFloat a) (PFloat b) = Inr (PFloat (a + b))"
| "py_add (PStr a) (PStr b) = Inr (PStr (a @ b))"
| "py_add (PList a) (PList b) = Inr (PList (a @ b))"
| "py_add _ _ = Inl (TypeError ''unsupported operand type(s) for +'')"

text \<open>\<open>x / y\<close>: true division of numbers, always a float; zero divisor raises.\<close>

fun py_truediv :: "pyval \<Rightarrow> pyval \<Rightarrow> exc + pyval" where
  "py_truediv (PInt a) (PInt b) =
     (if b = 0 then Inl (ZeroDivisionError ''division by zero'')
      else Inr (PFloat (of_int a / of_int b)))"
| "py_truediv (PInt a) (PFloat b) =
     (if b = 0 then Inl (ZeroDivisionError ''float division by zero'')
      else Inr (PFloat (of_int a / b)))"
| "py_truediv (PFloat a) (PInt b) =
     (if b = 0 then Inl (ZeroDivisionError ''float division by zero'')
      else Inr (PFloat (a / of_int b)))"
| "py_truediv (PFloat a) (PFloat b) =
     (if b = 0 then Inl (ZeroDivisionError ''float division by zero'')
      else Inr (PFloat (a / b)))"
| "py_truediv _ _ = Inl (TypeError ''unsupported operand type(s) for /'')"

text \<open>
  \<open>for x in v\<close>: the elements of a list, the keys of a dict, the characters of a string;
  anything else is not iterable.
\<close>

fun py_iter :: "pyval \<Rightarrow> exc + pyval list" where
  "py_iter (PList xs) = Inr xs"
| "py_iter (PDict kvs) = Inr (map (\<lambda>kv. PStr (fst kv)) kvs)"
| "py_iter (PStr s) = Inr (map (\<lambda>c. PStr [c]) s)"
| "py_iter _ = Inl (TypeError ''object is not iterable'')"

section \<open>The arithmetic tasks of worker.py\<close>

text \<open>
  What one run of a task body does: it returns a value, lets an exception escape, or
  asks for a retry through \<open>self.retry(exc=..., countdown=...)\<close>.
\<close>

datatype outcome =
    Return pyval
  | Raise exc
  | RetryRequest exc nat

text \<open>\<open>add_numbers(x, y)\<close>: \<open>result = x + y; return result\<close>.\<close>

definition add_numbers :: "pyval \<Rightarrow> pyval \<Rightarrow> outcome" where
  "add_numbers x y = (case py_add x y of Inl e \<Rightarrow> Raise e | Inr r \<Rightarrow> Return r)"

text \<open>
  \<open>divide_numbers(self, x, y)\<close>, bound, \<open>max_retries=5\<close>. The first argument is
  \<open>self.request.retries\<close>, the number of retries already made (the source logs the
  attempt number as \<open>self.request.retries + 1\<close>). Only a \<open>ZeroDivisionError\<close> is
  caught; the handler then asks for a retry with \<open>countdown = 2 ** self.request.retries\<close>.
\<close>

definition divide_numbers :: "nat \<Rightarrow> pyval \<Rightarrow> pyval \<Rightarrow> outcome" where
  "divide_numbers retries x y =
     (case (if eq_zero y then Inl (ZeroDivisionError ''Cannot divide by zero'')
            else py_truediv x y) of
        Inr result \<Rightarrow> Return result
      | Inl (ZeroDivisionError m) \<Rightarrow> RetryRequest (ZeroDivisionError m) (2 ^ retries)
      | Inl e \<Rightarrow> Raise e)"

text \<open>
  \<open>aggregate_results(results)\<close>: \<open>return sum(results)\<close>, that is \<open>0 + r1 + r2 + ...\<close> over
  the elements \<open>results\<close> iterates to (so the sum of an empty dict or string is 0).
\<close>

fun py_sum :: "pyval \<Rightarrow> pyval list \<Rightarrow> exc + pyval" where
  "py_sum acc [] = Inr acc"
| "py_sum acc (r # rs) = (case py_add acc r of Inl e \<Rightarrow> Inl e | Inr acc' \<Rightarrow> py_sum acc' rs)"

definition aggregate_results :: "pyval \<Rightarrow> outcome" where
  "aggregate_results results =
     (case py_iter results of
        Inl e \<Rightarrow> Raise e
      | Inr rs \<Rightarrow> (case py_sum (PInt 0) rs of Inl e \<Rightarrow> Raise e | Inr r \<Rightarrow> Return r))"

text \<open>
  The arithmetic tasks of worker.py as a registry: each of the three under its function
  name, the handler applied to the positional arguments (a wrong number of them is a
  TypeError at the call), and the declared retry bound. \<open>divide_numbers\<close> declares
  \<open>max_retries=5\<close>; the other two declare none and never ask for a retry, so their
  bound (3, the library's default) is never consulted. worker.py registers a fourth
  task, \<open>process_data\<close>, which sleeps and returns an f-string of its argument; it takes
  part in no chain or chord and is not in this registry, and the properties of the
  engine below are stated for an arbitrary registry.
\<close>

record handler_descriptor =
  handler :: "nat \<Rightarrow> pyval list \<Rightarrow> outcome"
  max_retries :: nat

type_synonym registry = "string \<Rightarrow> handler_descriptor option"

definition arity_error :: outcome where
  "arity_error = Raise (TypeError ''wrong number of positional arguments'')"

definition worker_registry :: registry where
  "worker_registry k =
     (if k = ''add_numbers'' then
        Some \<lparr>handler = (\<lambda>retries as. case as of [x, y] \<Rightarrow> add_numbers x y | _ \<Rightarrow> arity_error),
              max_retries = 3\<rparr>
      else if k = ''divide_numbers'' then
        Some \<lparr>handler = (\<lambda>retries as. case as of [x, y] \<Rightarrow> divide_numbers retries x y
                                       | _ \<Rightarrow> arity_error),
              max_retries = 5\<rparr>
      else if k = ''aggregate_results'' then
        Some \<lparr>handler = (\<lambda>retries as. case as of [results] \<Rightarrow> aggregate_results results
                                       | _ \<Rightarrow> arity_error),
              max_retries = 3\<rparr>
      else None)"

section \<open>The task engine\<close>

text \<open>
  Modelled from the spec: the engine itself (broker, result store, worker loop, retry
  scheduler, chain and chord unwinding) is the task-queue library the repository
  imports; none of it is under src/. The definitions of this section follow sections 3
  and 4 of the specification sentence by sentence. The handlers they run, the retry
  bounds and the compositions they are given are those of the source.
\<close>

text \<open>
  Modelled from the spec: the task result of section 3, a state with a value exactly in
  SUCCESS and an error exactly in FAILURE. A task-id the store has no entry for is PENDING.
\<close>

datatype task_result = PENDING | RUNNING | SUCCESS pyval | FAILURE exc | RETRY

text \<open>Modelled from the spec: an envelope template, a stage or callback not yet scheduled.\<close>

record template =
  t_id :: nat
  t_kind :: string
  t_args :: "pyval list"

text \<open>Modelled from the spec: the task envelope of section 3 (one queue, so no queue name).\<close>

record envelope =
  task_id :: nat
  kind :: string
  args :: "pyval list"
  retry_count :: nat
  not_before :: nat
  group_id :: "nat option"
  next_stage :: "template list"
  callback :: "template option"

text \<open>
  Modelled from the spec: a group ledger entry: which sibling task-ids exist, in
  group-definition order, and which have reached a terminal state, in completion order.
\<close>

record group_entry =
  members :: "nat list"
  terminal :: "nat list"

datatype event =
    Enqueued nat string "pyval list"
  | Invoked nat nat "pyval list"
  | Requeued nat nat

text \<open>
  Modelled from the spec: the shared state, broker queue, result store and group ledger,
  with the clock, a supply of fresh ids and a trace of what the engine did: \<open>Enqueued\<close>
  (task-id, kind, arguments) when a new envelope enters the queue, \<open>Invoked\<close> (task-id,
  retry count, arguments) when a worker calls a handler, \<open>Requeued\<close> (task-id, delay)
  when the retry scheduler puts an envelope back.
\<close>

record engine =
  queue :: "envelope list"
  store :: "nat \<Rightarrow> task_result option"
  ledger :: "nat \<Rightarrow> group_entry option"
  now :: nat
  events :: "event list"
  next_id :: nat

definition init :: engine where
  "init = \<lparr>queue = [], store = (\<lambda>_. None), ledger = (\<lambda>_. None), now = 0, events = [],
            next_id = 0\<rparr>"

text \<open>Modelled from the spec: \<open>get_status\<close> of section 4.5; absent is PENDING.\<close>

definition get_status :: "engine \<Rightarrow> nat \<Rightarrow> task_result" where
  "get_status s tid = (case store s tid of None \<Rightarrow> PENDING | Some r \<Rightarrow> r)"

text \<open>
  Modelled from the spec: \<open>await_result\<close> of section 6: the value, or the task's captured
  error raised again, or Timeout while the task has reached neither.
\<close>

fun result_get :: "task_result \<Rightarrow> exc + pyval" where
  "result_get (SUCCESS v) = Inr v"
| "result_get (FAILURE e) = Inl e"
| "result_get _ = Inl (Timeout ''The operation timed out.'')"

definition await_result :: "engine \<Rightarrow> nat \<Rightarrow> exc + pyval" where
  "await_result s tid = result_get (get_status s tid)"

definition write_result :: "nat \<Rightarrow> task_result \<Rightarrow> engine \<Rightarrow> engine" where
  "write_result tid r s = s\<lparr>store := (store s)(tid \<mapsto> r)\<rparr>"

definition enqueue :: "envelope \<Rightarrow> engine \<Rightarrow> engine" where
  "enqueue env s =
     s\<lparr>queue := queue s @ [env],
       events := events s @ [Enqueued (task_id env) (kind env) (args env)]\<rparr>"

text \<open>
  Modelled from the spec: an envelope made from a template, the injected values as its
  leading arguments, visible at once.
\<close>

definition instantiate :: "template \<Rightarrow> pyval list \<Rightarrow> template list \<Rightarrow> nat \<Rightarrow> envelope" where
  "instantiate t injected rest time =
     \<lparr>task_id = t_id t, kind = t_kind t, args = injected @ t_args t, retry_count = 0,
      not_before = time, group_id = None, next_stage = rest, callback = None\<rparr>"

text \<open>
  Modelled from the spec: what the aggregator is given for one sibling, read from the
  result store: its value, or its error in place of a value.
\<close>

definition sibling_result :: "engine \<Rightarrow> nat \<Rightarrow> pyval" where
  "sibling_result s m =
     (case store s m of
        Some (SUCCESS v) \<Rightarrow> v
      | Some (FAILURE e) \<Rightarrow> PExc e
      | _ \<Rightarrow> PNone)"

text \<open>
  Modelled from the spec: the chord fan-in of section 4.2, one atomic check-and-mark. A
  sibling that reached a terminal state marks itself in the ledger (once); the one that
  leaves no sibling outstanding enqueues the callback, whose input is the list of sibling
  results in group-definition order, and the ledger entry is destroyed.
\<close>

definition fan_in :: "envelope \<Rightarrow> engine \<Rightarrow> engine" where
  "fan_in env s =
     (case (group_id env, callback env) of
        (Some g, Some cb) \<Rightarrow>
          (case ledger s g of
             None \<Rightarrow> s
           | Some grp \<Rightarrow>
               if task_id env \<in> set (terminal grp) \<or> task_id env \<notin> set (members grp) then s
               else
                 let marked = terminal grp @ [task_id env] in
                 if set (members grp) \<subseteq> set marked then
                   enqueue
                     (instantiate cb [PList (map (sibling_result s) (members grp))] [] (now s))
                     (s\<lparr>ledger := (ledger s)(g := None)\<rparr>)
                 else s\<lparr>ledger := (ledger s)(g \<mapsto> grp\<lparr>terminal := marked\<rparr>)\<rparr>)
      | _ \<Rightarrow> s)"

text \<open>
  Modelled from the spec: a stage completing with SUCCESS. The value is written; in a
  chain the next stage's envelope is built with the value injected as its leading
  argument and enqueued; a task that ends its chain reports to its group, if any.
\<close>

definition on_success :: "envelope \<Rightarrow> pyval \<Rightarrow> engine \<Rightarrow> engine" where
  "on_success env v s =
     (let s1 = write_result (task_id env) (SUCCESS v) s in
      case next_stage env of
        t # ts \<Rightarrow> enqueue (instantiate t [v] ts (now s)) s1
      | [] \<Rightarrow> fan_in env s1)"

text \<open>
  Modelled from the spec: the id a chain is known by, that of its final stage.
\<close>

definition chain_id :: "envelope \<Rightarrow> nat" where
  "chain_id env = (case next_stage env of [] \<Rightarrow> task_id env | t # ts \<Rightarrow> t_id (last (t # ts)))"

text \<open>
  Modelled from the spec: a stage completing with FAILURE. The error is written for the
  task; the chain stops, no further stage is scheduled, and the chain's visible result
  is that failure; the task reports to its group, if any.
\<close>

definition on_failure :: "envelope \<Rightarrow> exc \<Rightarrow> engine \<Rightarrow> engine" where
  "on_failure env e s =
     fan_in env
       (write_result (chain_id env) (FAILURE e) (write_result (task_id env) (FAILURE e) s))"

text \<open>
  Modelled from the spec: the retry scheduler of section 4.4. Below the bound the same
  envelope goes back to the queue with its retry count incremented and
  \<open>not_before = now + delay\<close>, and the state is RETRY; at the bound the state is
  FAILURE with the captured error and nothing is enqueued. The delay is the countdown
  the handler passed to \<open>self.retry\<close>.
\<close>

definition retry_scheduler ::
  "handler_descriptor \<Rightarrow> envelope \<Rightarrow> exc \<Rightarrow> nat \<Rightarrow> engine \<Rightarrow> engine" where
  "retry_scheduler d env e delay s =
     (if retry_count env < max_retries d then
        (write_result (task_id env) RETRY s)
          \<lparr>queue := queue s @ [env\<lparr>retry_count := retry_count env + 1,
                                   not_before := now s + delay\<rparr>],
           events := events s @ [Requeued (task_id env) delay]\<rparr>
      else on_failure env e s)"

text \<open>
  Modelled from the spec: the worker of section 4.3 on one envelope: resolve the kind,
  invoke the handler, write SUCCESS on a returned value, FAILURE on a terminal
  failure, and hand a retryable failure to the retry scheduler.
\<close>

definition dispatch :: "registry \<Rightarrow> envelope \<Rightarrow> engine \<Rightarrow> engine" where
  "dispatch reg env s =
     (case reg (kind env) of
        None \<Rightarrow> on_failure env (UnknownTaskKind (kind env)) s
      | Some d \<Rightarrow>
          (case handler d (retry_count env) (args env) of
             Return v \<Rightarrow> on_success env v s
           | Raise e \<Rightarrow> on_failure env e s
           | RetryRequest e delay \<Rightarrow> retry_scheduler d env e delay s))"

text \<open>
  Modelled from the spec: one worker taking the envelope at position \<open>i\<close> of the queue
  (any worker may take any envelope, so the position is free). An envelope is invisible
  before \<open>not_before\<close>: the clock moves on to that time. The result is marked RUNNING
  before the handler is invoked. A position beyond the queue changes nothing.
\<close>

definition step :: "registry \<Rightarrow> nat \<Rightarrow> engine \<Rightarrow> engine" where
  "step reg i s =
     (if i < length (queue s) then
        let env = queue s ! i in
        dispatch reg env
          (write_result (task_id env) RUNNING
             (s\<lparr>queue := take i (queue s) @ drop (Suc i) (queue s),
                now := max (now s) (not_before env),
                events := events s @ [Invoked (task_id env) (retry_count env) (args env)]\<rparr>))
      else s)"

text \<open>A schedule is the list of positions the workers take, one after the other.\<close>

definition run :: "registry \<Rightarrow> nat list \<Rightarrow> engine \<Rightarrow> engine" where
  "run reg schedule s = fold (step reg) schedule s"

subsection \<open>Submitting work\<close>

text \<open>Modelled from the spec: \<open>submit\<close> of section 6; an unknown kind fails the call.\<close>

definition submit :: "registry \<Rightarrow> string \<Rightarrow> pyval list \<Rightarrow> engine \<Rightarrow> exc + nat \<times> engine" where
  "submit reg k as s =
     (case reg k of
        None \<Rightarrow> Inl (UnknownTaskKind k)
      | Some d \<Rightarrow>
          Inr (next_id s,
               enqueue (instantiate \<lparr>t_id = next_id s, t_kind = k, t_args = as\<rparr> [] [] (now s))
                 (s\<lparr>next_id := Suc (next_id s)\<rparr>)))"

text \<open>Templates with consecutive fresh ids, in the order given.\<close>

fun templates :: "nat \<Rightarrow> (string \<times> pyval list) list \<Rightarrow> template list" where
  "templates n [] = []"
| "templates n ((k, as) # rest) = \<lparr>t_id = n, t_kind = k, t_args = as\<rparr> # templates (Suc n) rest"

definition unknown_kind :: "registry \<Rightarrow> (string \<times> pyval list) list \<Rightarrow> string option" where
  "unknown_kind reg tasks = map_option fst (find (\<lambda>(k, as). reg k = None) tasks)"

text \<open>
  Modelled from the spec: \<open>submit_chain\<close>: the first stage is enqueued, the later stages
  ride along as templates; the call returns the id of the final stage.
\<close>

definition submit_chain ::
  "registry \<Rightarrow> (string \<times> pyval list) list \<Rightarrow> engine \<Rightarrow> exc + nat \<times> engine" where
  "submit_chain reg stages s =
     (case unknown_kind reg stages of
        Some k \<Rightarrow> Inl (UnknownTaskKind k)
      | None \<Rightarrow>
          (case templates (next_id s) stages of
             [] \<Rightarrow> Inl (Exception (PStr ''empty chain''))
           | t # ts \<Rightarrow>
               Inr (t_id (last (t # ts)),
                    enqueue (instantiate t [] ts (now s))
                      (s\<lparr>next_id := next_id s + length stages\<rparr>))))"

text \<open>
  Modelled from the spec: \<open>submit_chord\<close>: a fresh group id, every member enqueued with
  the group id and the same callback template, the membership registered in the ledger;
  the call returns the callback's id. With no member at all nobody is outstanding and
  the callback is enqueued at once.
\<close>

definition member_envelope :: "nat \<Rightarrow> template \<Rightarrow> nat \<Rightarrow> template \<Rightarrow> envelope" where
  "member_envelope g cb time t = (instantiate t [] [] time)\<lparr>group_id := Some g, callback := Some cb\<rparr>"

definition submit_chord ::
  "registry \<Rightarrow> (string \<times> pyval list) list \<Rightarrow> string \<times> pyval list \<Rightarrow> engine
     \<Rightarrow> exc + nat \<times> engine" where
  "submit_chord reg header body s =
     (case unknown_kind reg (header @ [body]) of
        Some k \<Rightarrow> Inl (UnknownTaskKind k)
      | None \<Rightarrow>
          let g = next_id s;
              ts = templates (Suc g) header;
              cb = \<lparr>t_id = Suc g + length header, t_kind = fst body, t_args = snd body\<rparr>;
              s1 = s\<lparr>next_id := Suc (Suc g) + length header\<rparr>
          in Inr (t_id cb,
                  if ts = [] then enqueue (instantiate cb [PList []] [] (now s)) s1
                  else fold enqueue (map (member_envelope g cb (now s)) ts)
                         (s1\<lparr>ledger := (ledger s1)(g \<mapsto> \<lparr>members = map t_id ts, terminal = []\<rparr>)\<rparr>)))"

subsection \<open>The endpoints of main.py that submit arithmetic tasks\<close>

text \<open>\<open>add_numbers.apply_async(args=[x, y], queue='default')\<close>.\<close>

definition add :: "int \<Rightarrow> int \<Rightarrow> engine \<Rightarrow> exc + nat \<times> engine" where
  "add x y = submit worker_registry ''add_numbers'' [PInt x, PInt y]"

text \<open>\<open>divide_numbers.apply_async(args=[x, y], queue='default')\<close>.\<close>

definition divide :: "int \<Rightarrow> int \<Rightarrow> engine \<Rightarrow> exc + nat \<times> engine" where
  "divide x y = submit worker_registry ''divide_numbers'' [PInt x, PInt y]"

text \<open>\<open>chain(add_numbers.s(x, y), divide_numbers.s(z)).apply_async()\<close>.\<close>

definition calculate_chain :: "int \<Rightarrow> int \<Rightarrow> int \<Rightarrow> engine \<Rightarrow> exc + nat \<times> engine" where
  "calculate_chain x y z =
     submit_chain worker_registry
       [(''add_numbers'', [PInt x, PInt y]), (''divide_numbers'', [PInt z])]"

text \<open>
  \<open>chord(group(add_numbers.s(x, y), divide_numbers.s(x, z)))(aggregate_results.s())\<close>.
\<close>

definition calculate_chord :: "int \<Rightarrow> int \<Rightarrow> int \<Rightarrow> engine \<Rightarrow> exc + nat \<times> engine" where
  "calculate_chord x y z =
     submit_chord worker_registry
       [(''add_numbers'', [PInt x, PInt y]), (''divide_numbers'', [PInt x, PInt z])]
       (''aggregate_results'', [])"

subsection \<open>Reading the trace\<close>

text \<open>The delays of the successive re-enqueues of one task, in order.\<close>

fun retry_delays :: "nat \<Rightarrow> event list \<Rightarrow> nat list" where
  "retry_delays tid [] = []"
| "retry_delays tid (Requeued t d # es) =
     (if t = tid then d # retry_delays tid es else retry_delays tid es)"
| "retry_delays tid (_ # es) = retry_delays tid es"

text \<open>The handler invocations of one task: the retry count and arguments of each attempt.\<close>

fun invocations :: "nat \<Rightarrow> event list \<Rightarrow> (nat \<times> pyval list) list" where
  "invocations tid [] = []"
| "invocations tid (Invoked t r as # es) =
     (if t = tid then (r, as) # invocations tid es else invocations tid es)"
| "invocations tid (_ # es) = invocations tid es"

text \<open>The new envelopes of one task that entered the queue: the kind and arguments of each.\<close>

fun enqueues :: "nat \<Rightarrow> event list \<Rightarrow> (string \<times> pyval list) list" where
  "enqueues tid [] = []"
| "enqueues tid (Enqueued t k as # es) =
     (if t = tid then (k, as) # enqueues tid es else enqueues tid es)"
| "enqueues tid (_ # es) = enqueues tid es"

text \<open>The task-ids that entered the queue as new envelopes, in order.\<close>

fun enqueued_ids :: "event list \<Rightarrow> nat list" where
  "enqueued_ids [] = []"
| "enqueued_ids (Enqueued t k as # es) = t # enqueued_ids es"
| "enqueued_ids (_ # es) = enqueued_ids es"

subsection \<open>What one step does\<close>

text \<open>
  How the worker and the retry scheduler settle one envelope: the handler's value, a
  terminal failure (an unknown kind, an escaped exception, or a retry request at the
  bound), or a retry below the bound.
\<close>

datatype verdict = Succeeded pyval | Failed exc | Retried exc nat

definition verdict :: "registry \<Rightarrow> envelope \<Rightarrow> verdict" where
  "verdict reg env =
     (case reg (kind env) of
        None \<Rightarrow> Failed (UnknownTaskKind (kind env))
      | Some d \<Rightarrow>
          (case handler d (retry_count env) (args env) of
             Return v \<Rightarrow> Succeeded v
           | Raise e \<Rightarrow> Failed e
           | RetryRequest e delay \<Rightarrow>
               if retry_count env < max_retries d then Retried e delay else Failed e))"

text \<open>The state in which the handler of the envelope at position \<open>i\<close> is invoked.\<close>

definition taken :: "nat \<Rightarrow> engine \<Rightarrow> engine" where
  "taken i s =
     write_result (task_id (queue s ! i)) RUNNING
       (s\<lparr>queue := take i (queue s) @ drop (Suc i) (queue s),
          now := max (now s) (not_before (queue s ! i)),
          events := events s @ [Invoked (task_id (queue s ! i)) (retry_count (queue s ! i))
                                  (args (queue s ! i))]\<rparr>)"

text \<open>
  The bound of section 3: an envelope's retry count does not exceed the maximum its
  kind is registered with, for every envelope in the queue.
\<close>

definition within_bound :: "registry \<Rightarrow> envelope \<Rightarrow> bool" where
  "within_bound reg env =
     (case reg (kind env) of None \<Rightarrow> True | Some d \<Rightarrow> retry_count env \<le> max_retries d)"

definition bounded :: "registry \<Rightarrow> engine \<Rightarrow> bool" where
  "bounded reg s = list_all (within_bound reg) (queue s)"

section \<open>The RAG tasks of rag/rag_worker.py\<close>

text \<open>
  A loaded page or a chunk: a \<open>Document\<close> with its text and its metadata dict.
\<close>

record document =
  page_content :: string
  metadata :: "(string \<times> pyval) list"

text \<open>
  The collaborators the task bodies call: the PDF loader, the text splitter, the
  embedding and vector store, the retriever and the language-model chain, and Python's
  \<open>str\<close>. They are outside the repository; each is a parameter that returns its result
  or raises. Every exception they raise is an \<open>Exception\<close> in Python's sense (what
  \<open>except Exception\<close> catches).
\<close>

record rag_env =
  py_str :: "pyval \<Rightarrow> string"
  load_pdf :: "string \<Rightarrow> exc + document list"
  split_documents :: "int \<Rightarrow> int \<Rightarrow> document list \<Rightarrow> exc + document list"
  from_documents :: "document list \<Rightarrow> string \<Rightarrow> exc + string \<times> string"
  collection_count :: "string \<Rightarrow> exc + nat"
  get_relevant_documents :: "string \<Rightarrow> int \<Rightarrow> string \<Rightarrow> exc + document list"
  invoke_rag_chain :: "string \<Rightarrow> int \<Rightarrow> string \<Rightarrow> exc + string"

text \<open>\<open>str(n)\<close> of a natural number, as an f-string prints \<open>len(...)\<close>.\<close>

fun str_nat :: "nat \<Rightarrow> string" where
  "str_nat n =
     (if n < 10 then [char_of (48 + n)]
      else str_nat (n div 10) @ [char_of (48 + n mod 10)])"

text \<open>\<open>d[k]\<close> with a string key: the entry of a dict, KeyError without it, TypeError on a non-dict.\<close>

fun py_getitem :: "pyval \<Rightarrow> string \<Rightarrow> exc + pyval" where
  "py_getitem (PDict kvs) k = (case map_of kvs k of None \<Rightarrow> Inl (KeyError k) | Some v \<Rightarrow> Inr v)"
| "py_getitem (PList xs) k = Inl (TypeError ''list indices must be integers or slices, not str'')"
| "py_getitem (PStr s) k = Inl (TypeError ''string indices must be integers, not str'')"
| "py_getitem _ k = Inl (TypeError ''object is not subscriptable'')"

text \<open>
  \<open>Document(page_content=doc["page_content"], metadata=doc["metadata"])\<close>: both lookups,
  then the constructor, which accepts a string and a dict.
\<close>

definition make_document :: "pyval \<Rightarrow> exc + document" where
  "make_document doc =
     (case py_getitem doc ''page_content'' of
        Inl e \<Rightarrow> Inl e
      | Inr c \<Rightarrow>
          (case py_getitem doc ''metadata'' of
             Inl e \<Rightarrow> Inl e
           | Inr m \<Rightarrow>
               (case (c, m) of
                  (PStr text, PDict md) \<Rightarrow> Inr \<lparr>page_content = text, metadata = md\<rparr>
                | _ \<Rightarrow> Inl (Exception (PStr ''validation error for Document'')))))"

text \<open>The list comprehension over the serialized documents: the first failure ends it.\<close>

fun make_documents :: "pyval list \<Rightarrow> exc + document list" where
  "make_documents [] = Inr []"
| "make_documents (d # ds) =
     (case make_document d of
        Inl e \<Rightarrow> Inl e
      | Inr doc \<Rightarrow> (case make_documents ds of Inl e \<Rightarrow> Inl e | Inr docs \<Rightarrow> Inr (doc # docs)))"

definition reconstruct :: "pyval \<Rightarrow> exc + document list" where
  "reconstruct v = (case py_iter v of Inl e \<Rightarrow> Inl e | Inr xs \<Rightarrow> make_documents xs)"

text \<open>\<open>{"page_content": doc.page_content, "metadata": doc.metadata}\<close>.\<close>

definition serialize :: "document \<Rightarrow> pyval" where
  "serialize doc =
     PDict [(''page_content'', PStr (page_content doc)), (''metadata'', PDict (metadata doc))]"

text \<open>
  \<open>pdf_reader_task(pdf_path)\<close>: the whole body is one \<open>try\<close>; the \<open>except Exception\<close>
  branch returns the error dict.
\<close>

definition pdf_reader_task :: "rag_env \<Rightarrow> string \<Rightarrow> exc + pyval" where
  "pdf_reader_task env pdf_path =
     (case load_pdf env pdf_path of
        Inr docs \<Rightarrow>
          Inr (PDict
            [(''status'', PStr ''success''),
             (''message'', PStr (''Successfully loaded '' @ str_nat (length docs)
                                  @ '' pages from '' @ pdf_path)),
             (''documents'', PList (map serialize docs)),
             (''doc_count'', PInt (int (length docs)))])
      | Inl e \<Rightarrow>
          Inr (PDict
            [(''status'', PStr ''error''),
             (''message'', PStr (''Error loading PDF: '' @ str_exc (py_str env) e)),
             (''documents'', PList []),
             (''doc_count'', PInt 0)]))"

text \<open>\<open>transform_documents_task(documents, chunk_size, chunk_overlap)\<close>.\<close>

definition transform_documents_task :: "rag_env \<Rightarrow> pyval \<Rightarrow> int \<Rightarrow> int \<Rightarrow> exc + pyval" where
  "transform_documents_task env documents chunk_size chunk_overlap =
     (case (case reconstruct documents of
              Inl e \<Rightarrow> Inl e
            | Inr doc_objects \<Rightarrow> split_documents env chunk_size chunk_overlap doc_objects) of
        Inr chunks \<Rightarrow>
          Inr (PDict
            [(''status'', PStr ''success''),
             (''message'', PStr (''Successfully created '' @ str_nat (length chunks) @ '' chunks'')),
             (''chunks'', PList (map serialize chunks)),
             (''chunk_count'', PInt (int (length chunks)))])
      | Inl e \<Rightarrow>
          Inr (PDict
            [(''status'', PStr ''error''),
             (''message'', PStr (''Error transforming documents: '' @ str_exc (py_str env) e)),
             (''chunks'', PList []),
             (''chunk_count'', PInt 0)]))"

text \<open>
  \<open>create_vectorstore_task(chunks, persist_directory)\<close>. \<open>len(chunks)\<close> is taken of the
  argument; once the comprehension has iterated it, it is the number of its elements.
\<close>

definition create_vectorstore_task :: "rag_env \<Rightarrow> pyval \<Rightarrow> string \<Rightarrow> exc + pyval" where
  "create_vectorstore_task env chunks persist_directory =
     (case (case reconstruct chunks of
              Inl e \<Rightarrow> Inl e
            | Inr chunk_objects \<Rightarrow>
                (case from_documents env chunk_objects persist_directory of
                   Inl e \<Rightarrow> Inl e
                 | Inr (collection_name, collection_id) \<Rightarrow>
                     Inr (length chunk_objects, collection_name, collection_id))) of
        Inr (n, collection_name, collection_id) \<Rightarrow>
          Inr (PDict
            [(''status'', PStr ''success''),
             (''message'', PStr (''Successfully created vectorstore with '' @ str_nat n
                                  @ '' chunks'')),
             (''vectorstore_path'', PStr persist_directory),
             (''chunk_count'', PInt (int n)),
             (''embedding_model'', PStr ''OpenAI''),
             (''collection_name'', PStr collection_name),
             (''collection_id'', PStr collection_id)])
      | Inl e \<Rightarrow>
          Inr (PDict
            [(''status'', PStr ''error''),
             (''message'', PStr (''Error creating vectorstore: '' @ str_exc (py_str env) e)),
             (''vectorstore_path'', PNone),
             (''chunk_count'', PInt 0)]))"

text \<open>
  The loop that ends \<open>query_vectorstore_task\<close>: \<open>doc.metadata.get("source", "Unknown")\<close>,
  appended to \<open>sources\<close> unless already in it.
\<close>

definition source_info :: "document \<Rightarrow> pyval" where
  "source_info doc = (case map_of (metadata doc) ''source'' of None \<Rightarrow> PStr ''Unknown'' | Some v \<Rightarrow> v)"

fun collect_sources :: "pyval list \<Rightarrow> document list \<Rightarrow> pyval list" where
  "collect_sources sources [] = sources"
| "collect_sources sources (doc # docs) =
     (if source_info doc \<in> set sources then collect_sources sources docs
      else collect_sources (sources @ [source_info doc]) docs)"

definition retrieved_chunk :: "document \<Rightarrow> pyval" where
  "retrieved_chunk doc =
     PDict [(''content'', PStr (page_content doc)), (''metadata'', PDict (metadata doc))]"

text \<open>
  \<open>query_vectorstore_task(question, persist_directory, top_k)\<close>: two early returns of an
  error dict inside the \<open>try\<close> (empty collection, nothing retrieved), the success dict,
  and the \<open>except Exception\<close> branch.
\<close>

definition query_vectorstore_task :: "rag_env \<Rightarrow> string \<Rightarrow> string \<Rightarrow> int \<Rightarrow> exc + pyval" where
  "query_vectorstore_task env question persist_directory top_k =
     (case (case collection_count env persist_directory of
              Inl e \<Rightarrow> Inl e
            | Inr n \<Rightarrow>
                if n = 0 then
                  Inr (PDict
                    [(''status'', PStr ''error''),
                     (''message'', PStr (''Vectorstore at '' @ persist_directory
                        @ '' is empty. Run /rag-individual-tasks/ first to populate it.'')),
                     (''answer'', PNone),
                     (''retrieved_chunks'', PList []),
                     (''sources'', PList [])])
                else
                  (case get_relevant_documents env persist_directory top_k question of
                     Inl e \<Rightarrow> Inl e
                   | Inr retrieved_docs \<Rightarrow>
                       if retrieved_docs = [] then
                         Inr (PDict
                           [(''status'', PStr ''error''),
                            (''message'', PStr (''No relevant documents found for question: ''
                               @ question)),
                            (''answer'', PStr (''I don'' @ [CHR 0x27]
                               @ ''t know - no relevant context was retrieved.'')),
                            (''retrieved_chunks'', PList []),
                            (''sources'', PList [])])
                       else
                         (case invoke_rag_chain env persist_directory top_k question of
                            Inl e \<Rightarrow> Inl e
                          | Inr answer \<Rightarrow>
                              Inr (PDict
                                [(''status'', PStr ''success''),
                                 (''answer'', PStr answer),
                                 (''question'', PStr question),
                                 (''retrieved_chunks'', PList (map retrieved_chunk retrieved_docs)),
                                 (''sources'', PList (collect_sources [] retrieved_docs)),
                                 (''context_used'', PInt (int (length retrieved_docs)))])))) of
        Inr result \<Rightarrow> Inr result
      | Inl e \<Rightarrow>
          Inr (PDict
            [(''status'', PStr ''error''),
             (''message'', PStr (''Error querying vectorstore: '' @ str_exc (py_str env) e)),
             (''answer'', PNone),
             (''retrieved_chunks'', PList []),
             (''sources'', PList [])]))"

text \<open>
  \<open>extract_documents_for_chain(pdf_result)\<close>: \<open>if pdf_result["status"] == "error": raise
  Exception(pdf_result["message"])\<close>, else \<open>return pdf_result["documents"]\<close>.
\<close>

definition extract_documents_for_chain :: "pyval \<Rightarrow> exc + pyval" where
  "extract_documents_for_chain pdf_result =
     (case py_getitem pdf_result ''status'' of
        Inl e \<Rightarrow> Inl e
      | Inr status \<Rightarrow>
          if eq_str status ''error'' then
            (case py_getitem pdf_result ''message'' of
               Inl e \<Rightarrow> Inl e
             | Inr message \<Rightarrow> Inl (Exception message))
          else py_getitem pdf_result ''documents'')"

text \<open>\<open>extract_chunks_for_chain(transform_result)\<close>: the same on the \<open>"chunks"\<close> field.\<close>

definition extract_chunks_for_chain :: "pyval \<Rightarrow> exc + pyval" where
  "extract_chunks_for_chain transform_result =
     (case py_getitem transform_result ''status'' of
        Inl e \<Rightarrow> Inl e
      | Inr status \<Rightarrow>
          if eq_str status ''error'' then
            (case py_getitem transform_result ''message'' of
               Inl e \<Rightarrow> Inl e
             | Inr message \<Rightarrow> Inl (Exception message))
          else py_getitem transform_result ''chunks'')"

text \<open>
  How a worker sees a task body: a returned value, or an exception that escaped it.
\<close>

definition body_outcome :: "exc + pyval \<Rightarrow> outcome" where
  "body_outcome r = (case r of Inl e \<Rightarrow> Raise e | Inr v \<Rightarrow> Return v)"

section \<open>The status queries of main.py and rag/rag_utilities.py\<close>

text \<open>
  Modelled from the spec: \<open>AsyncResult(task_id)\<close>, the library's handle on the result
  store, read as sections 3, 4.5 and 6 of the spec describe the store: a task-id with no
  entry is PENDING, a result is ready in its terminal states SUCCESS and FAILURE,
  successful in SUCCESS, and \<open>get()\<close> on a ready result is the blocking get (the value, or
  the captured error raised again). Task-ids are the strings the endpoints hand out.
\<close>

type_synonym result_store = "string \<Rightarrow> task_result option"

definition async_result :: "result_store \<Rightarrow> string \<Rightarrow> task_result" where
  "async_result st tid = (case st tid of None \<Rightarrow> PENDING | Some r \<Rightarrow> r)"

fun ready :: "task_result \<Rightarrow> bool" where
  "ready (SUCCESS v) = True"
| "ready (FAILURE e) = True"
| "ready _ = False"

fun successful :: "task_result \<Rightarrow> bool" where
  "successful (SUCCESS v) = True"
| "successful _ = False"

fun state_name :: "task_result \<Rightarrow> string" where
  "state_name PENDING = ''PENDING''"
| "state_name RUNNING = ''RUNNING''"
| "state_name (SUCCESS v) = ''SUCCESS''"
| "state_name (FAILURE e) = ''FAILURE''"
| "state_name RETRY = ''RETRY''"

text \<open>\<open>task_result.result\<close>: the value, or the exception instance of a failed task.\<close>

fun result_attr :: "task_result \<Rightarrow> pyval" where
  "result_attr (SUCCESS v) = v"
| "result_attr (FAILURE e) = PExc e"
| "result_attr _ = PNone"

text \<open>
  \<open>get_task_status(task_id)\<close> of main.py: \<open>if task_result.ready(): return {..., "status":
  "Completed", "result": task_result.get()}\<close>, else \<open>{..., "status": "Pending"}\<close>. Nothing
  catches what \<open>get()\<close> raises.
\<close>

definition get_task_status :: "result_store \<Rightarrow> string \<Rightarrow> exc + pyval" where
  "get_task_status st tid =
     (let task_result = async_result st tid in
      if ready task_result then
        (case result_get task_result of
           Inl e \<Rightarrow> Inl e
         | Inr v \<Rightarrow>
             Inr (PDict [(''task_id'', PStr tid), (''status'', PStr ''Completed''),
                         (''result'', v)]))
      else Inr (PDict [(''task_id'', PStr tid), (''status'', PStr ''Pending'')]))"

text \<open>
  \<open>check_task_status(task_id)\<close> of rag_utilities.py. The whole body is one \<open>try\<close> whose
  \<open>except Exception\<close> branch returns an Error dict. The state test
  \<open>state in ['RETRY', 'PROGRESS']\<close> is the test for RETRY: PROGRESS is not a state of the
  result store.
\<close>

definition check_task_status :: "(pyval \<Rightarrow> string) \<Rightarrow> result_store \<Rightarrow> string \<Rightarrow> exc + pyval" where
  "check_task_status str_fn st tid =
     (case
        (if tid = [] then
           Inr (PDict [(''task_id'', PStr tid), (''status'', PStr ''Error''),
                       (''error'', PStr ''No task ID provided'')])
         else
           let task_result = async_result st tid in
           if ready task_result then
             if successful task_result then
               (case result_get task_result of
                  Inl e \<Rightarrow> Inl e
                | Inr v \<Rightarrow>
                    Inr (PDict [(''task_id'', PStr tid), (''status'', PStr ''Completed''),
                                (''result'', v)]))
             else
               Inr (PDict [(''task_id'', PStr tid), (''status'', PStr ''Error''),
                           (''error'', PStr (str_fn (result_attr task_result)))])
           else
             let state = state_name task_result in
             if task_result = PENDING then
               Inr (PDict [(''task_id'', PStr tid), (''status'', PStr ''Pending''),
                           (''state'', PStr state)])
             else if task_result = RETRY then
               Inr (PDict [(''task_id'', PStr tid), (''status'', PStr ''Running''),
                           (''state'', PStr state)])
             else
               Inr (PDict [(''task_id'', PStr tid), (''status'', PStr ''Pending''),
                           (''state'', PStr state)])) of
        Inr d \<Rightarrow> Inr d
      | Inl e \<Rightarrow>
          Inr (PDict [(''task_id'', PStr tid), (''status'', PStr ''Error''),
                      (''error'', PStr (str_exc str_fn e))]))"

text \<open>The \<open>"status"\<close> entry of a returned dict.\<close>

definition status_of :: "exc + pyval \<Rightarrow> pyval option" where
  "status_of r = (case r of Inr (PDict d) \<Rightarrow> map_of d ''status'' | _ \<Rightarrow> None)"

text \<open>
  The convention of the RAG task bodies: a dict is returned whose status is \<open>"success"\<close>,
  or \<open>"error"\<close> with every payload field an empty list and every count field 0.
\<close>

definition error_convention :: "string list \<Rightarrow> string list \<Rightarrow> exc + pyval \<Rightarrow> bool" where
  "error_convention payload counts r =
     (case r of
        Inr (PDict d) \<Rightarrow>
          map_of d ''status'' = Some (PStr ''success'') \<or>
          map_of d ''status'' = Some (PStr ''error'') \<and>
          list_all (\<lambda>k. map_of d k = Some (PList [])) payload \<and>
          list_all (\<lambda>k. map_of d k = Some (PInt 0)) counts
      | _ \<Rightarrow> False)"

text \<open>
  What a worker records for an envelope whose handler runs the given task body.
\<close>

definition worker_records :: "exc + pyval \<Rightarrow> envelope \<Rightarrow> engine \<Rightarrow> task_result" where
  "worker_records body env s =
     get_status
       (dispatch (\<lambda>k. Some \<lparr>handler = (\<lambda>retries as. body_outcome body), max_retries = 3\<rparr>) env s)
       (task_id env)"

section \<open>Invariants of the compositions\<close>

text \<open>
  A chain of \<open>n\<close> stages submitted on an idle engine has the task-ids \<open>0, ..., n - 1\<close>.
  At every moment some stage \<open>k\<close> is the last one that entered the queue; the queue
  holds at most that stage's envelope, which carries the later stages as templates; and
  a FAILURE in the store, at stage \<open>k\<close> or after it, means the queue is empty and the
  final stage's entry holds the same error.
\<close>

definition chain_inv :: "nat \<Rightarrow> engine \<Rightarrow> bool" where
  "chain_inv n s =
     (\<exists>k<n. enqueued_ids (events s) = [0..<Suc k] \<and>
        (\<forall>j<n. \<forall>e. store s j = Some (FAILURE e) \<longrightarrow>
           queue s = [] \<and> k \<le> j \<and> store s (n - 1) = Some (FAILURE e)) \<and>
        (queue s = [] \<or>
         (\<exists>env. queue s = [env] \<and> task_id env = k \<and> group_id env = None \<and>
            map t_id (next_stage env) = [Suc k..<n])))"

text \<open>
  A chord over \<open>N\<close> siblings submitted on an idle engine has the group id 0, the sibling
  task-ids \<open>1, ..., N\<close> in group-definition order and the callback id \<open>N + 1\<close>. While it
  waits, the ledger entry exists, the queue holds exactly the siblings that are not yet
  marked terminal, each once and none of them in a terminal state, every marked sibling
  is in a terminal state, and the callback has left no trace.
\<close>

definition waiting :: "nat \<Rightarrow> template \<Rightarrow> engine \<Rightarrow> bool" where
  "waiting N cb s =
     (\<exists>grp. ledger s 0 = Some grp \<and> members grp = [1..<Suc N] \<and>
        distinct (map task_id (queue s)) \<and> queue s \<noteq> [] \<and>
        set (map task_id (queue s)) = {1..N} - set (terminal grp) \<and>
        set (terminal grp) \<subseteq> {1..N} \<and>
        (\<forall>env \<in> set (queue s). group_id env = Some 0 \<and> callback env = Some cb \<and>
           next_stage env = [] \<and> \<not> ready (get_status s (task_id env))) \<and>
        (\<forall>m \<in> set (terminal grp). ready (get_status s m)) \<and>
        enqueues (Suc N) (events s) = [] \<and> invocations (Suc N) (events s) = [] \<and>
        retry_delays (Suc N) (events s) = [])"

text \<open>
  Once the callback has fired, the ledger entry is gone, every sibling is in a terminal
  state, the callback's envelope entered the queue exactly once, with the list of the
  sibling results in group-definition order as its leading argument, every invocation
  of the callback had those arguments, and the queue holds at most the callback's
  envelope: it is invoked once, and once more for each retry its own handler asked for.
\<close>

definition fired :: "nat \<Rightarrow> template \<Rightarrow> engine \<Rightarrow> bool" where
  "fired N cb s =
     (ledger s 0 = None \<and> (\<forall>m \<in> {1..N}. ready (get_status s m)) \<and>
      enqueues (Suc N) (events s)
        = [(t_kind cb, PList (map (sibling_result s) [1..<Suc N]) # t_args cb)] \<and>
      (\<forall>inv \<in> set (invocations (Suc N) (events s)).
         snd inv = PList (map (sibling_result s) [1..<Suc N]) # t_args cb) \<and>
      length (invocations (Suc N) (events s)) + (if queue s = [] then 0 else 1)
        = Suc (length (retry_delays (Suc N) (events s))) \<and>
      (queue s = [] \<or>
       (\<exists>env. queue s = [env] \<and> task_id env = Suc N \<and> group_id env = None \<and>
          next_stage env = [] \<and> kind env = t_kind cb \<and>
          args env = PList (map (sibling_result s) [1..<Suc N]) # t_args cb)))"

definition chord_inv :: "nat \<Rightarrow> template \<Rightarrow> engine \<Rightarrow> bool" where
  "chord_inv N cb s = (waiting N cb s \<or> fired N cb s)"

section \<open>Evaluating the engine\<close>

lemmas engine_defs =
  run_def step_def dispatch_def retry_scheduler_def on_failure_def on_success_def fan_in_def
  chain_id_def enqueue_def instantiate_def write_result_def get_status_def

lemmas worker_defs =
  worker_registry_def add_numbers_def divide_numbers_def aggregate_results_def arity_error_def

text \<open>The engine state right after \<open>divide(x, y)\<close> on an idle engine.\<close>

lemma divide_init:
  "divide x y init =
     Inr (0, \<lparr>queue = [\<lparr>task_id = 0, kind = ''divide_numbers'', args = [PInt x, PInt y],
                         retry_count = 0, not_before = 0, group_id = None, next_stage = [],
                         callback = None\<rparr>],
              store = \<lambda>_. None, ledger = \<lambda>_. None, now = 0,
              events = [Enqueued 0 ''divide_numbers'' [PInt x, PInt y]], next_id = Suc 0\<rparr>)"
  by (simp add: divide_def submit_def worker_registry_def enqueue_def instantiate_def init_def)

text \<open>The engine state right after \<open>calculate_chain(x, y, z)\<close> on an idle engine.\<close>

lemma calculate_chain_init:
  "calculate_chain x y z init =
     Inr (Suc 0,
          \<lparr>queue = [\<lparr>task_id = 0, kind = ''add_numbers'', args = [PInt x, PInt y],
                     retry_count = 0, not_before = 0, group_id = None,
                     next_stage = [\<lparr>t_id = Suc 0, t_kind = ''divide_numbers'', t_args = [PInt z]\<rparr>],
                     callback = None\<rparr>],
           store = \<lambda>_. None, ledger = \<lambda>_. None, now = 0,
           events = [Enqueued 0 ''add_numbers'' [PInt x, PInt y]], next_id = Suc (Suc 0)\<rparr>)"
  by (simp add: calculate_chain_def submit_chain_def unknown_kind_def worker_registry_def
      enqueue_def instantiate_def init_def)

text \<open>
  C1. \<open>divide_numbers\<close> with divisor \<open>y = 0\<close> on an idle engine: six attempts (retry counts
  0 to 5), five re-enqueues, then terminal FAILURE with an empty queue. The delays of the
  five re-enqueues are 1, 2, 4, 8, 16 seconds (\<open>2 ** self.request.retries\<close> with the
  retry count starting at 0), not the 2, 4, 8, 16, 32 the claim and the source's own
  comment ("First retry after 2 seconds, second after 4, third after 8") announce.
\<close>

theorem divide_by_zero_backoff:
  "\<exists>tid s. divide x 0 init = Inr (tid, s) \<and>
     retry_delays tid (events (run worker_registry [0, 0, 0, 0, 0, 0] s)) = [1, 2, 4, 8, 16] \<and>
     map fst (invocations tid (events (run worker_registry [0, 0, 0, 0, 0, 0] s)))
       = [0, 1, 2, 3, 4, 5] \<and>
     get_status (run worker_registry [0, 0, 0, 0, 0, 0] s) tid
       = FAILURE (ZeroDivisionError ''Cannot divide by zero'') \<and>
     queue (run worker_registry [0, 0, 0, 0, 0, 0] s) = []"
proof -
  obtain s where s: "divide x 0 init = Inr (0, s)"
    and lit: "s = \<lparr>queue = [\<lparr>task_id = 0, kind = ''divide_numbers'', args = [PInt x, PInt 0],
                         retry_count = 0, not_before = 0, group_id = None, next_stage = [],
                         callback = None\<rparr>],
              store = \<lambda>_. None, ledger = \<lambda>_. None, now = 0,
              events = [Enqueued 0 ''divide_numbers'' [PInt x, PInt 0]], next_id = Suc 0\<rparr>"
    using divide_init [of x 0] by blast
  have a: "retry_delays 0 (events (run worker_registry [0, 0, 0, 0, 0, 0] s)) = [1, 2, 4, 8, 16]"
    unfolding lit by (simp add: engine_defs worker_defs Let_def)
  have b: "map fst (invocations 0 (events (run worker_registry [0, 0, 0, 0, 0, 0] s)))
       = [0, 1, 2, 3, 4, 5]"
    unfolding lit by (simp add: engine_defs worker_defs Let_def)
  have c: "get_status (run worker_registry [0, 0, 0, 0, 0, 0] s) 0
       = FAILURE (ZeroDivisionError ''Cannot divide by zero'')"
    unfolding lit by (simp add: engine_defs worker_defs Let_def)
  have d: "queue (run worker_registry [0, 0, 0, 0, 0, 0] s) = []"
    unfolding lit by (simp add: engine_defs worker_defs Let_def)
  show ?thesis
    by (rule exI [of _ 0], rule exI [of _ s]) (intro conjI s a b c d)
qed

text \<open>
  C5. The chain \<open>[add(2, 3), divide(z)]\<close> on an idle engine. With \<open>z = 5\<close> the divide
  stage is invoked once, on \<open>(5, 5)\<close>, add's result being its leading argument, and the
  chain's final value is \<open>1.0\<close>. With \<open>z = 0\<close> the divide stage is re-enqueued five
  times and the chain ends in FAILURE with an empty queue.
\<close>

theorem calculate_chain_2_3:
  "(\<exists>tid s. calculate_chain 2 3 5 init = Inr (tid, s) \<and>
      invocations tid (events (run worker_registry [0, 0] s)) = [(0, [PInt 5, PInt 5])] \<and>
      await_result (run worker_registry [0, 0] s) tid = Inr (PFloat 1) \<and>
      queue (run worker_registry [0, 0] s) = []) \<and>
   (\<exists>tid s. calculate_chain 2 3 0 init = Inr (tid, s) \<and>
      length (retry_delays tid (events (run worker_registry [0, 0, 0, 0, 0, 0, 0] s))) = 5 \<and>
      map fst (invocations tid (events (run worker_registry [0, 0, 0, 0, 0, 0, 0] s)))
        = [0, 1, 2, 3, 4, 5] \<and>
      get_status (run worker_registry [0, 0, 0, 0, 0, 0, 0] s) tid
        = FAILURE (ZeroDivisionError ''Cannot divide by zero'') \<and>
      queue (run worker_registry [0, 0, 0, 0, 0, 0, 0] s) = [])"
proof (rule conjI)
  obtain s where s: "calculate_chain 2 3 5 init = Inr (Suc 0, s)"
    and lit: "s = \<lparr>queue = [\<lparr>task_id = 0, kind = ''add_numbers'', args = [PInt 2, PInt 3],
                     retry_count = 0, not_before = 0, group_id = None,
                     next_stage = [\<lparr>t_id = Suc 0, t_kind = ''divide_numbers'', t_args = [PInt 5]\<rparr>],
                     callback = None\<rparr>],
           store = \<lambda>_. None, ledger = \<lambda>_. None, now = 0,
           events = [Enqueued 0 ''add_numbers'' [PInt 2, PInt 3]], next_id = Suc (Suc 0)\<rparr>"
    using calculate_chain_init [of 2 3 5] by blast
  have a: "invocations (Suc 0) (events (run worker_registry [0, 0] s)) = [(0, [PInt 5, PInt 5])]"
    unfolding lit by (simp add: engine_defs worker_defs Let_def)
  have b: "await_result (run worker_registry [0, 0] s) (Suc 0) = Inr (PFloat 1)"
    unfolding lit by (simp add: engine_defs await_result_def worker_defs Let_def)
  have c: "queue (run worker_registry [0, 0] s) = []"
    unfolding lit by (simp add: engine_defs worker_defs Let_def)
  show "\<exists>tid s. calculate_chain 2 3 5 init = Inr (tid, s) \<and>
      invocations tid (events (run worker_registry [0, 0] s)) = [(0, [PInt 5, PInt 5])] \<and>
      await_result (run worker_registry [0, 0] s) tid = Inr (PFloat 1) \<and>
      queue (run worker_registry [0, 0] s) = []"
    by (rule exI [of _ "Suc 0"], rule exI [of _ s]) (intro conjI s a b c)
next
  obtain s where s: "calculate_chain 2 3 0 init = Inr (Suc 0, s)"
    and lit: "s = \<lparr>queue = [\<lparr>task_id = 0, kind = ''add_numbers'', args = [PInt 2, PInt 3],
                     retry_count = 0, not_before = 0, group_id = None,
                     next_stage = [\<lparr>t_id = Suc 0, t_kind = ''divide_numbers'', t_args = [PInt 0]\<rparr>],
                     callback = None\<rparr>],
           store = \<lambda>_. None, ledger = \<lambda>_. None, now = 0,
           events = [Enqueued 0 ''add_numbers'' [PInt 2, PInt 3]], next_id = Suc (Suc 0)\<rparr>"
    using calculate_chain_init [of 2 3 0] by blast
  have a: "length (retry_delays (Suc 0)
             (events (run worker_registry [0, 0, 0, 0, 0, 0, 0] s))) = 5"
    unfolding lit by (simp add: engine_defs worker_defs Let_def)
  have b: "map fst (invocations (Suc 0) (events (run worker_registry [0, 0, 0, 0, 0, 0, 0] s)))
        = [0, 1, 2, 3, 4, 5]"
    unfolding lit by (simp add: engine_defs worker_defs Let_def)
  have c: "get_status (run worker_registry [0, 0, 0, 0, 0, 0, 0] s) (Suc 0)
        = FAILURE (ZeroDivisionError ''Cannot divide by zero'')"
    unfolding lit by (simp add: engine_defs worker_defs Let_def)
  have d: "queue (run worker_registry [0, 0, 0, 0, 0, 0, 0] s) = []"
    unfolding lit by (simp add: engine_defs worker_defs Let_def)
  show "\<exists>tid s. calculate_chain 2 3 0 init = Inr (tid, s) \<and>
      length (retry_delays tid (events (run worker_registry [0, 0, 0, 0, 0, 0, 0] s))) = 5 \<and>
      map fst (invocations tid (events (run worker_registry [0, 0, 0, 0, 0, 0, 0] s)))
        = [0, 1, 2, 3, 4, 5] \<and>
      get_status (run worker_registry [0, 0, 0, 0, 0, 0, 0] s) tid
        = FAILURE (ZeroDivisionError ''Cannot divide by zero'') \<and>
      queue (run worker_registry [0, 0, 0, 0, 0, 0, 0] s) = []"
    by (rule exI [of _ "Suc 0"], rule exI [of _ s]) (intro conjI s a b c d)
qed

section \<open>The RAG task bodies at the task boundary\<close>

lemma fan_in_store: "store (fan_in env s) = store s"
  by (simp add: fan_in_def enqueue_def Let_def split: option.splits)

lemma on_success_status: "get_status (on_success env v s) (task_id env) = SUCCESS v"
  by (simp add: on_success_def get_status_def fan_in_store write_result_def enqueue_def Let_def
      split: list.splits)

lemma worker_records_return: "worker_records (Inr v) env s = SUCCESS v"
  by (simp add: worker_records_def dispatch_def body_outcome_def on_success_status)

text \<open>
  C9. For every collaborator behaviour and every input, each of the four RAG task bodies
  returns a dict (no exception escapes) whose status is \<open>"success"\<close> or \<open>"error"\<close>; on
  \<open>"error"\<close> the payload field it has (documents, chunks, retrieved_chunks) is the empty
  list and the count field it has (doc_count, chunk_count) is 0. A worker that runs the
  body therefore records SUCCESS with that dict, whatever the envelope and the state.
\<close>

theorem rag_task_bodies_total:
  "error_convention [''documents''] [''doc_count''] (pdf_reader_task env pdf_path) \<and>
   error_convention [''chunks''] [''chunk_count'']
     (transform_documents_task env documents chunk_size chunk_overlap) \<and>
   error_convention [] [''chunk_count''] (create_vectorstore_task env chunks persist_directory) \<and>
   error_convention [''retrieved_chunks''] []
     (query_vectorstore_task env question persist_directory top_k) \<and>
   (\<exists>d. pdf_reader_task env pdf_path = Inr (PDict d) \<and>
        worker_records (pdf_reader_task env pdf_path) e s = SUCCESS (PDict d)) \<and>
   (\<exists>d. transform_documents_task env documents chunk_size chunk_overlap = Inr (PDict d) \<and>
        worker_records (transform_documents_task env documents chunk_size chunk_overlap) e s
          = SUCCESS (PDict d)) \<and>
   (\<exists>d. create_vectorstore_task env chunks persist_directory = Inr (PDict d) \<and>
        worker_records (create_vectorstore_task env chunks persist_directory) e s
          = SUCCESS (PDict d)) \<and>
   (\<exists>d. query_vectorstore_task env question persist_directory top_k = Inr (PDict d) \<and>
        worker_records (query_vectorstore_task env question persist_directory top_k) e s
          = SUCCESS (PDict d))"
proof (intro conjI)
  show "error_convention [''documents''] [''doc_count''] (pdf_reader_task env pdf_path)"
    by (simp add: error_convention_def pdf_reader_task_def split: sum.splits)
  show "error_convention [''chunks''] [''chunk_count'']
     (transform_documents_task env documents chunk_size chunk_overlap)"
    by (simp add: error_convention_def transform_documents_task_def split: sum.splits)
  show "error_convention [] [''chunk_count''] (create_vectorstore_task env chunks persist_directory)"
    by (simp add: error_convention_def create_vectorstore_task_def split: sum.splits prod.splits)
  show "error_convention [''retrieved_chunks''] []
     (query_vectorstore_task env question persist_directory top_k)"
    by (simp add: error_convention_def query_vectorstore_task_def split: sum.splits)
  show "\<exists>d. pdf_reader_task env pdf_path = Inr (PDict d) \<and>
        worker_records (pdf_reader_task env pdf_path) e s = SUCCESS (PDict d)"
    by (simp add: pdf_reader_task_def worker_records_return split: sum.splits)
  show "\<exists>d. transform_documents_task env documents chunk_size chunk_overlap = Inr (PDict d) \<and>
        worker_records (transform_documents_task env documents chunk_size chunk_overlap) e s
          = SUCCESS (PDict d)"
    by (simp add: transform_documents_task_def worker_records_return split: sum.splits)
  show "\<exists>d. create_vectorstore_task env chunks persist_directory = Inr (PDict d) \<and>
        worker_records (create_vectorstore_task env chunks persist_directory) e s
          = SUCCESS (PDict d)"
    by (simp add: create_vectorstore_task_def worker_records_return split: sum.splits prod.splits)
  show "\<exists>d. query_vectorstore_task env question persist_directory top_k = Inr (PDict d) \<and>
        worker_records (query_vectorstore_task env question persist_directory top_k) e s
          = SUCCESS (PDict d)"
    by (simp add: query_vectorstore_task_def worker_records_return split: sum.splits)
qed

section \<open>The chain extractors\<close>

text \<open>
  C10. In the RAG chain \<open>extract_documents_for_chain\<close> is given what \<open>pdf_reader_task\<close>
  returned and \<open>extract_chunks_for_chain\<close> what \<open>transform_documents_task\<close> returned.
  For every behaviour of the loader and the splitter and every input, that result is a
  dict with a status, a message and the payload field; its status is \<open>"error"\<close> exactly
  when the loader (the reconstruction or the splitter) raised; the extractor raises if
  and only if the status is \<open>"error"\<close>, the exception it raises is \<open>Exception(message)\<close>,
  and otherwise it returns the payload field unchanged.
\<close>

theorem extractors_on_task_results:
  "(\<exists>d st msg docs.
      pdf_reader_task env pdf_path = Inr (PDict d) \<and>
      map_of d ''status'' = Some st \<and> map_of d ''message'' = Some msg \<and>
      map_of d ''documents'' = Some docs \<and>
      ((st = PStr ''error'') = isl (load_pdf env pdf_path)) \<and>
      ((\<exists>e. extract_documents_for_chain (PDict d) = Inl e) = (st = PStr ''error'')) \<and>
      extract_documents_for_chain (PDict d)
        = (if st = PStr ''error'' then Inl (Exception msg) else Inr docs)) \<and>
   (\<exists>d st msg chunks.
      transform_documents_task env documents chunk_size chunk_overlap = Inr (PDict d) \<and>
      map_of d ''status'' = Some st \<and> map_of d ''message'' = Some msg \<and>
      map_of d ''chunks'' = Some chunks \<and>
      ((st = PStr ''error'')
         = isl (case reconstruct documents of
                  Inl e \<Rightarrow> Inl e
                | Inr doc_objects \<Rightarrow> split_documents env chunk_size chunk_overlap doc_objects)) \<and>
      ((\<exists>e. extract_chunks_for_chain (PDict d) = Inl e) = (st = PStr ''error'')) \<and>
      extract_chunks_for_chain (PDict d)
        = (if st = PStr ''error'' then Inl (Exception msg) else Inr chunks))"
proof (intro conjI)
  show "\<exists>d st msg docs.
      pdf_reader_task env pdf_path = Inr (PDict d) \<and>
      map_of d ''status'' = Some st \<and> map_of d ''message'' = Some msg \<and>
      map_of d ''documents'' = Some docs \<and>
      ((st = PStr ''error'') = isl (load_pdf env pdf_path)) \<and>
      ((\<exists>e. extract_documents_for_chain (PDict d) = Inl e) = (st = PStr ''error'')) \<and>
      extract_documents_for_chain (PDict d)
        = (if st = PStr ''error'' then Inl (Exception msg) else Inr docs)"
    by (cases "load_pdf env pdf_path")
      (simp_all add: pdf_reader_task_def extract_documents_for_chain_def)
  show "\<exists>d st msg chunks.
      transform_documents_task env documents chunk_size chunk_overlap = Inr (PDict d) \<and>
      map_of d ''status'' = Some st \<and> map_of d ''message'' = Some msg \<and>
      map_of d ''chunks'' = Some chunks \<and>
      ((st = PStr ''error'')
         = isl (case reconstruct documents of
                  Inl e \<Rightarrow> Inl e
                | Inr doc_objects \<Rightarrow> split_documents env chunk_size chunk_overlap doc_objects)) \<and>
      ((\<exists>e. extract_chunks_for_chain (PDict d) = Inl e) = (st = PStr ''error'')) \<and>
      extract_chunks_for_chain (PDict d)
        = (if st = PStr ''error'' then Inl (Exception msg) else Inr chunks)"
    by (cases "case reconstruct documents of
                  Inl e \<Rightarrow> Inl e
                | Inr doc_objects \<Rightarrow> split_documents env chunk_size chunk_overlap doc_objects")
      (simp_all add: transform_documents_task_def extract_chunks_for_chain_def)
qed

section \<open>The status queries\<close>

text \<open>
  C7, as stated, fails. \<open>check_task_status\<close> answers the empty task-id, which no task
  ever had, with status \<open>"Error"\<close> ("No task ID provided") instead of Pending: an explicit
  guard. And \<open>get_task_status\<close> on a task in FAILURE raises the task's error, because
  \<open>task_result.get()\<close> raises it again and nothing catches it.
\<close>

theorem status_query_not_pending:
  "status_of (check_task_status (\<lambda>v. []) Map.empty []) = Some (PStr ''Error'') \<and>
   get_task_status (Map.empty(''t1'' \<mapsto> FAILURE (ZeroDivisionError ''Cannot divide by zero'')))
     ''t1''
     = Inl (ZeroDivisionError ''Cannot divide by zero'')"
  by (simp add: check_task_status_def get_task_status_def status_of_def async_result_def)

text \<open>
  C7, amended. For every result store and every task-id, \<open>check_task_status\<close> returns a
  dict (it never raises) whose status is Completed, Error, Pending or Running; for a
  non-empty task-id the store has no entry for, it reports Pending, and so does
  \<open>get_task_status\<close> for any task-id without an entry; for a task in SUCCESS
  \<open>get_task_status\<close> reports Completed with the value; and for every task that is not
  in FAILURE, \<open>get_task_status\<close> returns a dict whose status is Completed or Pending.
  What \<open>get_task_status\<close> does for a task in FAILURE is left out.
\<close>

theorem status_queries_total:
  "(\<exists>d. check_task_status str_fn st tid = Inr (PDict d) \<and>
        (map_of d ''status'' = Some (PStr ''Completed'') \<or>
         map_of d ''status'' = Some (PStr ''Error'') \<or>
         map_of d ''status'' = Some (PStr ''Pending'') \<or>
         map_of d ''status'' = Some (PStr ''Running''))) \<and>
   (tid \<noteq> [] \<and> st tid = None \<longrightarrow>
      status_of (check_task_status str_fn st tid) = Some (PStr ''Pending'')) \<and>
   (st tid = None \<longrightarrow> status_of (get_task_status st tid) = Some (PStr ''Pending'')) \<and>
   (st tid = Some (SUCCESS v) \<longrightarrow>
      get_task_status st tid
        = Inr (PDict [(''task_id'', PStr tid), (''status'', PStr ''Completed''), (''result'', v)])) \<and>
   ((\<forall>e. st tid \<noteq> Some (FAILURE e)) \<longrightarrow>
      (\<exists>d. get_task_status st tid = Inr (PDict d) \<and>
           (map_of d ''status'' = Some (PStr ''Completed'') \<or>
            map_of d ''status'' = Some (PStr ''Pending''))))"
proof (intro conjI impI)
  show "\<exists>d. check_task_status str_fn st tid = Inr (PDict d) \<and>
        (map_of d ''status'' = Some (PStr ''Completed'') \<or>
         map_of d ''status'' = Some (PStr ''Error'') \<or>
         map_of d ''status'' = Some (PStr ''Pending'') \<or>
         map_of d ''status'' = Some (PStr ''Running''))"
    by (cases "async_result st tid") (simp_all add: check_task_status_def Let_def)
  show "status_of (check_task_status str_fn st tid) = Some (PStr ''Pending'')"
    if "tid \<noteq> [] \<and> st tid = None"
    using that by (simp add: check_task_status_def async_result_def status_of_def)
  show "status_of (get_task_status st tid) = Some (PStr ''Pending'')" if "st tid = None"
    using that by (simp add: get_task_status_def async_result_def status_of_def)
  show "get_task_status st tid
        = Inr (PDict [(''task_id'', PStr tid), (''status'', PStr ''Completed''), (''result'', v)])"
    if "st tid = Some (SUCCESS v)"
    using that by (simp add: get_task_status_def async_result_def)
  show "\<exists>d. get_task_status st tid = Inr (PDict d) \<and>
           (map_of d ''status'' = Some (PStr ''Completed'') \<or>
            map_of d ''status'' = Some (PStr ''Pending''))"
    if "\<forall>e. st tid \<noteq> Some (FAILURE e)"
    using that by (cases "async_result st tid")
      (auto simp: get_task_status_def async_result_def Let_def split: option.splits)
qed

text \<open>The theorem at a task-id nobody has written a result for.\<close>

theorem status_queries_total_witness:
  "''abc'' \<noteq> [] \<and> Map.empty ''abc'' = (None :: task_result option) \<and>
   status_of (check_task_status (\<lambda>v. []) Map.empty ''abc'') = Some (PStr ''Pending'') \<and>
   status_of (get_task_status Map.empty ''abc'') = Some (PStr ''Pending'')"
  using status_queries_total [of "\<lambda>v. []" Map.empty "''abc''"]
  by simp

section \<open>Steps of the engine\<close>

lemma step_idle: "\<not> i < length (queue s) \<Longrightarrow> step reg i s = s"
  by (simp add: step_def)

lemma step_verdict:
  "i < length (queue s) \<Longrightarrow>
   step reg i s =
     (case verdict reg (queue s ! i) of
        Succeeded v \<Rightarrow> on_success (queue s ! i) v (taken i s)
      | Failed e \<Rightarrow> on_failure (queue s ! i) e (taken i s)
      | Retried e delay \<Rightarrow>
          (write_result (task_id (queue s ! i)) RETRY (taken i s))
            \<lparr>queue := queue (taken i s) @
                 [(queue s ! i)\<lparr>retry_count := retry_count (queue s ! i) + 1,
                                not_before := now (taken i s) + delay\<rparr>],
             events := events (taken i s) @ [Requeued (task_id (queue s ! i)) delay]\<rparr>)"
  by (simp add: step_def dispatch_def verdict_def taken_def retry_scheduler_def Let_def
      split: option.splits outcome.splits)

lemma taken_simps:
  "queue (taken i s) = take i (queue s) @ drop (Suc i) (queue s)"
  "store (taken i s) = (store s)(task_id (queue s ! i) \<mapsto> RUNNING)"
  "ledger (taken i s) = ledger s"
  "next_id (taken i s) = next_id s"
  "events (taken i s) = events s @ [Invoked (task_id (queue s ! i)) (retry_count (queue s ! i))
                                  (args (queue s ! i))]"
  by (simp_all add: taken_def write_result_def)

lemma fan_in_none: "group_id env = None \<Longrightarrow> fan_in env s = s"
  by (simp add: fan_in_def)

lemma retry_delays_append:
  "retry_delays tid (es @ es') = retry_delays tid es @ retry_delays tid es'"
  by (induction tid es rule: retry_delays.induct) simp_all

lemma invocations_append:
  "invocations tid (es @ es') = invocations tid es @ invocations tid es'"
  by (induction tid es rule: invocations.induct) simp_all

lemma enqueued_ids_append: "enqueued_ids (es @ es') = enqueued_ids es @ enqueued_ids es'"
  by (induction es rule: enqueued_ids.induct) simp_all

lemma fan_in_queue:
  "queue (fan_in env s) = queue s \<or>
   (\<exists>t x. callback env = Some t \<and> queue (fan_in env s) = queue s @ [instantiate t x [] (now s)])"
  by (auto simp: fan_in_def enqueue_def Let_def split: option.splits)

lemma fan_in_retry_delays: "retry_delays tid (events (fan_in env s)) = retry_delays tid (events s)"
  by (simp add: fan_in_def enqueue_def Let_def retry_delays_append split: option.splits)

lemma within_bound_instantiate: "within_bound reg (instantiate t x ts time)"
  by (simp add: within_bound_def instantiate_def split: option.splits)

lemma list_all_remove: "list_all P xs \<Longrightarrow> list_all P (take i xs @ drop (Suc i) xs)"
  by (auto simp: list_all_iff dest: in_set_takeD in_set_dropD)

lemma bounded_fan_in: "bounded reg s \<Longrightarrow> bounded reg (fan_in env s)"
  using fan_in_queue [of env s] by (auto simp: bounded_def within_bound_instantiate)

lemma bounded_step: "bounded reg s \<Longrightarrow> bounded reg (step reg i s)"
proof (cases "i < length (queue s)")
  case False
  assume "bounded reg s"
  with False show ?thesis by (simp add: step_idle)
next
  case True
  assume b: "bounded reg s"
  then have rest: "list_all (within_bound reg) (queue (taken i s))"
    using list_all_remove [of "within_bound reg" "queue s" i] by (simp add: bounded_def taken_simps)
  show ?thesis
  proof (cases "verdict reg (queue s ! i)")
    case (Succeeded v)
    show ?thesis
    proof (cases "next_stage (queue s ! i)")
      case Nil
      have "bounded reg (write_result (task_id (queue s ! i)) (SUCCESS v) (taken i s))"
        using rest by (simp add: bounded_def write_result_def)
      then show ?thesis
        using True Succeeded Nil by (simp add: step_verdict on_success_def bounded_fan_in)
    next
      case (Cons t ts)
      then show ?thesis
        using True Succeeded rest
        by (simp add: step_verdict on_success_def bounded_def enqueue_def write_result_def
            within_bound_instantiate)
    qed
  next
    case (Failed e)
    have "bounded reg (write_result (chain_id (queue s ! i)) (FAILURE e)
            (write_result (task_id (queue s ! i)) (FAILURE e) (taken i s)))"
      using rest by (simp add: bounded_def write_result_def)
    then show ?thesis
      using True Failed by (simp add: step_verdict on_failure_def bounded_fan_in)
  next
    case (Retried e delay)
    then have "within_bound reg ((queue s ! i)\<lparr>retry_count := retry_count (queue s ! i) + 1,
                 not_before := now (taken i s) + delay\<rparr>)"
      by (auto simp: verdict_def within_bound_def split: option.splits outcome.splits if_splits)
    then show ?thesis
      using True Retried rest by (simp add: step_verdict bounded_def write_result_def)
  qed
qed

lemma bounded_run: "bounded reg s \<Longrightarrow> bounded reg (run reg schedule s)"
  unfolding run_def by (induction schedule arbitrary: s) (simp_all add: bounded_step)


lemma fold_enqueue_queue: "queue (fold enqueue envs s) = queue s @ envs"
  by (induction envs arbitrary: s) (simp_all add: enqueue_def)

lemma fold_enqueue_store: "store (fold enqueue envs s) = store s"
  by (induction envs arbitrary: s) (simp_all add: enqueue_def)

lemma fold_enqueue_ledger: "ledger (fold enqueue envs s) = ledger s"
  by (induction envs arbitrary: s) (simp_all add: enqueue_def)

lemma within_bound_member: "within_bound reg (member_envelope g cb time t)"
  by (simp add: within_bound_def member_envelope_def instantiate_def split: option.splits)

lemma bounded_submit:
  "bounded reg s \<Longrightarrow> submit reg k as s = Inr (tid, s') \<Longrightarrow> bounded reg s'"
  by (auto simp: submit_def bounded_def enqueue_def within_bound_instantiate split: option.splits)

lemma bounded_submit_chain:
  "bounded reg s \<Longrightarrow> submit_chain reg stages s = Inr (tid, s') \<Longrightarrow> bounded reg s'"
  by (auto simp: submit_chain_def bounded_def enqueue_def within_bound_instantiate
      split: option.splits list.splits)

lemma bounded_submit_chord:
  "bounded reg s \<Longrightarrow> submit_chord reg header body s = Inr (tid, s') \<Longrightarrow> bounded reg s'"
  by (auto simp: submit_chord_def bounded_def enqueue_def within_bound_instantiate Let_def
      fold_enqueue_queue list_all_iff within_bound_member split: option.splits if_splits)

lemma exhausted_step:
  assumes i: "i < length (queue s)"
    and d: "reg (kind (queue s ! i)) = Some d"
    and m: "max_retries d \<le> retry_count (queue s ! i)"
    and h: "handler d (retry_count (queue s ! i)) (args (queue s ! i)) = RetryRequest e delay"
  shows "get_status (step reg i s) (task_id (queue s ! i)) = FAILURE e"
    and "retry_delays (task_id (queue s ! i)) (events (step reg i s))
           = retry_delays (task_id (queue s ! i)) (events s)"
    and "queue (step reg i s) = take i (queue s) @ drop (Suc i) (queue s) \<or>
         (\<exists>t x time. callback (queue s ! i) = Some t \<and>
            queue (step reg i s)
              = take i (queue s) @ drop (Suc i) (queue s) @ [instantiate t x [] time])"
proof -
  have v: "verdict reg (queue s ! i) = Failed e"
    using d m h by (simp add: verdict_def)
  have st: "step reg i s = on_failure (queue s ! i) e (taken i s)"
    using i v by (simp add: step_verdict)
  show "get_status (step reg i s) (task_id (queue s ! i)) = FAILURE e"
    by (simp add: st on_failure_def get_status_def fan_in_store write_result_def)
  show "retry_delays (task_id (queue s ! i)) (events (step reg i s))
           = retry_delays (task_id (queue s ! i)) (events s)"
    by (simp add: st on_failure_def fan_in_retry_delays write_result_def taken_simps
        retry_delays_append)
  show "queue (step reg i s) = take i (queue s) @ drop (Suc i) (queue s) \<or>
         (\<exists>t x time. callback (queue s ! i) = Some t \<and>
            queue (step reg i s)
              = take i (queue s) @ drop (Suc i) (queue s) @ [instantiate t x [] time])"
    using fan_in_queue [of "queue s ! i"
        "write_result (chain_id (queue s ! i)) (FAILURE e)
           (write_result (task_id (queue s ! i)) (FAILURE e) (taken i s))"]
    by (auto simp: st on_failure_def write_result_def taken_simps)
qed

section \<open>The retry bound\<close>

text \<open>
  C8. The retry count of every envelope in the queue stays within the maximum its kind is
  registered with: the idle engine satisfies the bound, \<open>submit\<close>, \<open>submit_chain\<close> and
  \<open>submit_chord\<close> keep it (new envelopes start at retry count 0), and so does every run,
  whatever the registry and the schedule. And when a handler asks for a retry on an
  envelope whose retry count has reached the maximum, the step writes FAILURE with the
  error the handler captured and re-enqueues nothing: no delay is added to the task's
  trace, and the queue is the old one without the envelope, followed at most by the
  callback of the chord the task belonged to.
\<close>

theorem retry_count_bounded:
  "bounded reg init \<and>
   (bounded reg s \<and> submit reg k as s = Inr (tid, s') \<longrightarrow> bounded reg s') \<and>
   (bounded reg s \<and> submit_chain reg stages s = Inr (tid, s') \<longrightarrow> bounded reg s') \<and>
   (bounded reg s \<and> submit_chord reg header body s = Inr (tid, s') \<longrightarrow> bounded reg s') \<and>
   (bounded reg s \<longrightarrow> bounded reg (run reg schedule s)) \<and>
   (i < length (queue s) \<and> reg (kind (queue s ! i)) = Some d \<and>
    max_retries d \<le> retry_count (queue s ! i) \<and>
    handler d (retry_count (queue s ! i)) (args (queue s ! i)) = RetryRequest e delay \<longrightarrow>
      get_status (step reg i s) (task_id (queue s ! i)) = FAILURE e \<and>
      retry_delays (task_id (queue s ! i)) (events (step reg i s))
        = retry_delays (task_id (queue s ! i)) (events s) \<and>
      (queue (step reg i s) = take i (queue s) @ drop (Suc i) (queue s) \<or>
       (\<exists>t x time. callback (queue s ! i) = Some t \<and>
          queue (step reg i s)
            = take i (queue s) @ drop (Suc i) (queue s) @ [instantiate t x [] time])))"
  using bounded_submit [of reg s k as tid s'] bounded_submit_chain [of reg s stages tid s']
    bounded_submit_chord [of reg s header body tid s'] bounded_run [of reg s schedule]
    exhausted_step [of i s reg d e delay]
  by (simp add: bounded_def init_def)

text \<open>
  The theorem at \<open>divide_numbers(1, 0)\<close> on its sixth attempt (retry count 5, the
  maximum): the state satisfies the bound, and the step writes FAILURE.
\<close>

theorem retry_count_bounded_witness:
  "bounded worker_registry
     \<lparr>queue = [\<lparr>task_id = 0, kind = ''divide_numbers'', args = [PInt 1, PInt 0],
                retry_count = 5, not_before = 31, group_id = None, next_stage = [],
                callback = None\<rparr>],
      store = Map.empty(0 \<mapsto> RETRY), ledger = Map.empty, now = 15, events = [], next_id = 1\<rparr> \<and>
   bounded worker_registry (run worker_registry [0]
     \<lparr>queue = [\<lparr>task_id = 0, kind = ''divide_numbers'', args = [PInt 1, PInt 0],
                retry_count = 5, not_before = 31, group_id = None, next_stage = [],
                callback = None\<rparr>],
      store = Map.empty(0 \<mapsto> RETRY), ledger = Map.empty, now = 15, events = [], next_id = 1\<rparr>) \<and>
   get_status (step worker_registry 0
     \<lparr>queue = [\<lparr>task_id = 0, kind = ''divide_numbers'', args = [PInt 1, PInt 0],
                retry_count = 5, not_before = 31, group_id = None, next_stage = [],
                callback = None\<rparr>],
      store = Map.empty(0 \<mapsto> RETRY), ledger = Map.empty, now = 15, events = [], next_id = 1\<rparr>) 0
     = FAILURE (ZeroDivisionError ''Cannot divide by zero'')"
proof -
  let ?env = "\<lparr>task_id = 0, kind = ''divide_numbers'', args = [PInt 1, PInt 0],
                retry_count = 5, not_before = 31, group_id = None, next_stage = [],
                callback = None\<rparr>"
  let ?s = "\<lparr>queue = [?env], store = Map.empty(0 \<mapsto> RETRY), ledger = Map.empty, now = 15,
             events = [], next_id = 1\<rparr>"
  let ?d = "\<lparr>handler = (\<lambda>retries as. case as of [x, y] \<Rightarrow> divide_numbers retries x y
                                       | _ \<Rightarrow> arity_error),
              max_retries = 5\<rparr>"
  have b: "bounded worker_registry ?s"
    by (simp add: bounded_def within_bound_def worker_registry_def)
  have h1: "(0::nat) < length (queue ?s) \<and> worker_registry (kind (queue ?s ! 0)) = Some ?d \<and>
      max_retries ?d \<le> retry_count (queue ?s ! 0)"
    by (simp add: worker_registry_def)
  have h2: "handler ?d (retry_count (queue ?s ! 0)) (args (queue ?s ! 0))
        = RetryRequest (ZeroDivisionError ''Cannot divide by zero'') 32"
    by (simp add: divide_numbers_def)
  note h = conjI [OF h1 h2]
  from retry_count_bounded
    [where reg = worker_registry and s = ?s and schedule = "[0]" and i = 0 and d = ?d
       and e = "ZeroDivisionError ''Cannot divide by zero''" and delay = 32
       and k = "''divide_numbers''" and as = "[]" and tid = 0 and s' = ?s
       and stages = "[]" and header = "[]" and body = "(''aggregate_results'', [])"]
    b h
  show ?thesis by simp
qed

section \<open>The engine as a dispatch layer\<close>

text \<open>
  C6. For every registry, every registered kind and every argument list on which the
  handler, called directly (at retry count 0), returns a value: submitting the task on
  any engine state and having a worker take its envelope invokes the handler on exactly
  those arguments and leaves exactly that value for \<open>await_result\<close>. When the handler
  raises instead, \<open>await_result\<close> raises the same error.
\<close>

theorem submit_then_await:
  "(reg k = Some d \<and> handler d 0 as = Return v \<longrightarrow>
      (\<exists>tid s. submit reg k as s0 = Inr (tid, s) \<and>
         invocations tid (events (step reg (length (queue s0)) s))
           = invocations tid (events s0) @ [(0, as)] \<and>
         await_result (step reg (length (queue s0)) s) tid = Inr v)) \<and>
   (reg k = Some d \<and> handler d 0 as = Raise e \<longrightarrow>
      (\<exists>tid s. submit reg k as s0 = Inr (tid, s) \<and>
         await_result (step reg (length (queue s0)) s) tid = Inl e))"
  by (auto simp: submit_def step_def dispatch_def on_success_def on_failure_def fan_in_def
      chain_id_def enqueue_def instantiate_def write_result_def await_result_def get_status_def
      invocations_append Let_def)

text \<open>The theorem at \<open>add_numbers(2, 3)\<close> on an idle engine.\<close>

theorem submit_then_await_witness:
  "(\<exists>d. worker_registry ''add_numbers'' = Some d \<and>
        handler d 0 [PInt 2, PInt 3] = Return (PInt 5)) \<and>
   (\<exists>tid s. submit worker_registry ''add_numbers'' [PInt 2, PInt 3] init = Inr (tid, s) \<and>
        await_result (step worker_registry 0 s) tid = Inr (PInt 5))"
proof -
  let ?d = "\<lparr>handler = (\<lambda>retries as. case as of [x, y] \<Rightarrow> add_numbers x y | _ \<Rightarrow> arity_error),
              max_retries = 3\<rparr>"
  have h1: "worker_registry ''add_numbers'' = Some ?d"
    by (simp add: worker_registry_def)
  have h2: "handler ?d 0 [PInt 2, PInt 3] = Return (PInt 5)"
    by (simp add: add_numbers_def)
  note h = conjI [OF h1 h2]
  from submit_then_await
    [where reg = worker_registry and k = "''add_numbers''" and d = ?d
       and as = "[PInt 2, PInt 3]" and v = "PInt 5" and ?s0.0 = init
       and e = "TypeError []"]
    h
  have "\<exists>tid s. submit worker_registry ''add_numbers'' [PInt 2, PInt 3] init = Inr (tid, s) \<and>
        await_result (step worker_registry (length (queue init)) s) tid = Inr (PInt 5)"
    by blast
  then have "\<exists>tid s. submit worker_registry ''add_numbers'' [PInt 2, PInt 3] init = Inr (tid, s) \<and>
        await_result (step worker_registry 0 s) tid = Inr (PInt 5)"
    by (simp add: init_def)
  with h show ?thesis by blast
qed

section \<open>Chains\<close>

lemma step_success_next:
  assumes "i < length (queue s)" "verdict reg (queue s ! i) = Succeeded v"
    "next_stage (queue s ! i) = t # ts"
  shows "queue (step reg i s)
           = take i (queue s) @ drop (Suc i) (queue s) @ [instantiate t [v] ts (now (taken i s))]"
    and "store (step reg i s) = (store s)(task_id (queue s ! i) \<mapsto> SUCCESS v)"
    and "ledger (step reg i s) = ledger s"
    and "events (step reg i s)
           = events s @ [Invoked (task_id (queue s ! i)) (retry_count (queue s ! i))
                           (args (queue s ! i)),
                         Enqueued (t_id t) (t_kind t) (v # t_args t)]"
  using assms
  by (simp_all add: step_verdict on_success_def enqueue_def write_result_def taken_simps
      instantiate_def)

lemma step_success_last:
  assumes "i < length (queue s)" "verdict reg (queue s ! i) = Succeeded v"
    "next_stage (queue s ! i) = []" "group_id (queue s ! i) = None"
  shows "queue (step reg i s) = take i (queue s) @ drop (Suc i) (queue s)"
    and "store (step reg i s) = (store s)(task_id (queue s ! i) \<mapsto> SUCCESS v)"
    and "ledger (step reg i s) = ledger s"
    and "events (step reg i s)
           = events s @ [Invoked (task_id (queue s ! i)) (retry_count (queue s ! i))
                           (args (queue s ! i))]"
  using assms
  by (simp_all add: step_verdict on_success_def fan_in_none write_result_def taken_simps)

lemma step_failed_plain:
  assumes "i < length (queue s)" "verdict reg (queue s ! i) = Failed e"
    "group_id (queue s ! i) = None"
  shows "queue (step reg i s) = take i (queue s) @ drop (Suc i) (queue s)"
    and "store (step reg i s)
           = (store s)(task_id (queue s ! i) \<mapsto> FAILURE e, chain_id (queue s ! i) \<mapsto> FAILURE e)"
    and "ledger (step reg i s) = ledger s"
    and "events (step reg i s)
           = events s @ [Invoked (task_id (queue s ! i)) (retry_count (queue s ! i))
                           (args (queue s ! i))]"
  using assms
  by (simp_all add: step_verdict on_failure_def fan_in_none write_result_def taken_simps)

lemma step_retried:
  assumes "i < length (queue s)" "verdict reg (queue s ! i) = Retried e delay"
  shows "queue (step reg i s)
           = take i (queue s) @ drop (Suc i) (queue s) @
               [(queue s ! i)\<lparr>retry_count := retry_count (queue s ! i) + 1,
                              not_before := now (taken i s) + delay\<rparr>]"
    and "store (step reg i s) = (store s)(task_id (queue s ! i) \<mapsto> RETRY)"
    and "ledger (step reg i s) = ledger s"
    and "events (step reg i s)
           = events s @ [Invoked (task_id (queue s ! i)) (retry_count (queue s ! i))
                           (args (queue s ! i)),
                         Requeued (task_id (queue s ! i)) delay]"
  using assms
  by (simp_all add: step_verdict write_result_def taken_simps)

lemma Cons_eq_upt: "x # xs = [i..<j] \<longleftrightarrow> i < j \<and> x = i \<and> xs = [Suc i..<j]"
  using upt_eq_Cons_conv [of i j x xs] by auto

lemma chain_id_upt:
  assumes "map t_id (next_stage env) = [Suc (task_id env)..<n]" "task_id env < n"
  shows "chain_id env = n - 1"
proof (cases "next_stage env")
  case Nil
  with assms(1) [symmetric] have "n \<le> Suc (task_id env)" by auto
  with assms(2) Nil show ?thesis by (simp add: chain_id_def)
next
  case (Cons t ts)
  have "t_id (last (t # ts)) = last (map t_id (t # ts))"
    by (simp only: last_map [OF list.distinct(2)])
  also have "\<dots> = last [Suc (task_id env)..<n]"
    using assms Cons by simp
  also have "\<dots> = n - 1"
    using assms Cons by (cases "Suc (task_id env) < n") simp_all
  finally show ?thesis using Cons by (simp add: chain_id_def)
qed

lemma chain_inv_step: "chain_inv n s \<Longrightarrow> chain_inv n (step reg i s)"
proof (cases "i < length (queue s)")
  case False
  assume "chain_inv n s"
  with False show ?thesis by (simp add: step_idle)
next
  case True
  assume "chain_inv n s"
  then obtain k where k: "k < n" and enq: "enqueued_ids (events s) = [0..<Suc k]"
    and fail: "\<forall>j<n. \<forall>e. store s j = Some (FAILURE e) \<longrightarrow>
           queue s = [] \<and> k \<le> j \<and> store s (n - 1) = Some (FAILURE e)"
    and q: "queue s = [] \<or>
         (\<exists>env. queue s = [env] \<and> task_id env = k \<and> group_id env = None \<and>
            map t_id (next_stage env) = [Suc k..<n])"
    unfolding chain_inv_def by blast
  from True q obtain env where env: "queue s = [env]" "task_id env = k" "group_id env = None"
    "map t_id (next_stage env) = [Suc k..<n]"
    by auto
  from True env have i0: "i = 0" and qi: "queue s ! i = env" by simp_all
  have nofail: "\<And>j e. j < n \<Longrightarrow> store s j \<noteq> Some (FAILURE e)"
    using fail env by auto
  show ?thesis
  proof (cases "verdict reg env")
    case (Succeeded v)
    show ?thesis
    proof (cases "next_stage env")
      case Nil
      note st = step_success_last [OF True, of reg v, unfolded qi, OF Succeeded Nil env(3)]
      show ?thesis unfolding chain_inv_def
        using k enq nofail env st
        by (intro exI [of _ k]) (auto simp: enqueued_ids_append i0)
    next
      case (Cons t ts)
      note st = step_success_next [OF True, of reg v t ts, unfolded qi, OF Succeeded Cons]
      from env(4) Cons have t: "Suc k < n" "t_id t = Suc k" "map t_id ts = [Suc (Suc k)..<n]"
        by (auto simp: Cons_eq_upt)
      show ?thesis unfolding chain_inv_def
        using t enq nofail env st
        by (intro exI [of _ "Suc k"]) (auto simp: enqueued_ids_append i0 instantiate_def)
    qed
  next
    case (Failed e)
    note st = step_failed_plain [OF True, of reg e, unfolded qi, OF Failed env(3)]
    have cid: "chain_id env = n - 1"
      using chain_id_upt [of env n] env k by simp
    show ?thesis unfolding chain_inv_def
      using k enq nofail env st cid
      by (intro exI [of _ k]) (auto simp: enqueued_ids_append i0)
  next
    case (Retried e delay)
    note st = step_retried [OF True, of reg e delay, unfolded qi, OF Retried]
    show ?thesis unfolding chain_inv_def
      using k enq nofail env st
      by (intro exI [of _ k]) (auto simp: enqueued_ids_append i0)
  qed
qed


lemma chain_inv_run: "chain_inv n s \<Longrightarrow> chain_inv n (run reg schedule s)"
  unfolding run_def by (induction schedule arbitrary: s) (simp_all add: chain_inv_step)

lemma templates_ids: "map t_id (templates b stages) = [b..<b + length stages]"
  by (induction b stages rule: templates.induct) (simp_all del: upt_Suc add: upt_conv_Cons)

lemma submit_chain_inv:
  assumes "submit_chain reg stages init = Inr (cid, s0)"
  shows "chain_inv (length stages) s0" and "cid = length stages - 1"
proof -
  from assms obtain t ts where ts: "templates 0 stages = t # ts"
    and cid: "cid = t_id (last (t # ts))"
    and s0: "s0 = enqueue (instantiate t [] ts 0) (init\<lparr>next_id := length stages\<rparr>)"
    by (auto simp: submit_chain_def init_def split: option.splits list.splits)
  have ids: "map t_id (t # ts) = [0..<length stages]"
    using templates_ids [of 0 stages] ts by simp
  then have t: "0 < length stages" "t_id t = 0" "map t_id ts = [Suc 0..<length stages]"
    by (auto simp: Cons_eq_upt)
  show "chain_inv (length stages) s0"
    unfolding chain_inv_def using t
    by (intro exI [of _ 0]) (simp add: s0 enqueue_def instantiate_def init_def)
  have "t_id (last (t # ts)) = last (map t_id (t # ts))"
    by (simp only: last_map [OF list.distinct(2)])
  also have "\<dots> = length stages - 1"
    using t by (simp only: ids) simp
  finally show "cid = length stages - 1" using cid by simp
qed

text \<open>
  C2. A chain submitted on an idle engine, run under any schedule: its stages have the
  task-ids \<open>0, ..., n - 1\<close> in order and the chain is known by the id of its final stage.
  If the store shows stage \<open>i\<close> in FAILURE with error \<open>e\<close>, then no later stage has entered
  the queue, the queue is empty (so none ever will), and the status of the chain's id is
  FAILURE with that same error \<open>e\<close>.
\<close>

theorem chain_short_circuit:
  "submit_chain reg stages init = Inr (cid, s0) \<and> i < length stages \<and>
   get_status (run reg schedule s0) i = FAILURE e \<longrightarrow>
     cid = length stages - 1 \<and>
     (\<forall>j. i < j \<and> j < length stages \<longrightarrow> j \<notin> set (enqueued_ids (events (run reg schedule s0)))) \<and>
     queue (run reg schedule s0) = [] \<and>
     get_status (run reg schedule s0) cid = FAILURE e"
proof (intro impI, elim conjE)
  assume sub: "submit_chain reg stages init = Inr (cid, s0)" and i: "i < length stages"
    and f: "get_status (run reg schedule s0) i = FAILURE e"
  let ?s = "run reg schedule s0"
  let ?n = "length stages"
  have inv: "chain_inv ?n ?s" and cid: "cid = ?n - 1"
    using submit_chain_inv [OF sub] by (simp_all add: chain_inv_run)
  from f have st: "store ?s i = Some (FAILURE e)"
    by (simp add: get_status_def split: option.splits)
  from inv obtain k where k: "k < ?n" and enq: "enqueued_ids (events ?s) = [0..<Suc k]"
    and fail: "\<forall>j<?n. \<forall>e. store ?s j = Some (FAILURE e) \<longrightarrow>
           queue ?s = [] \<and> k \<le> j \<and> store ?s (?n - 1) = Some (FAILURE e)"
    unfolding chain_inv_def by blast
  from fail i st have "queue ?s = []" "k \<le> i" "store ?s (?n - 1) = Some (FAILURE e)"
    by blast+
  then show "cid = ?n - 1 \<and>
     (\<forall>j. i < j \<and> j < ?n \<longrightarrow> j \<notin> set (enqueued_ids (events ?s))) \<and>
     queue ?s = [] \<and> get_status ?s cid = FAILURE e"
    using cid enq by (auto simp: get_status_def)
qed

text \<open>
  The theorem at the three-stage chain \<open>[add(2, 3), divide(0), add(1)]\<close>: the second
  stage, \<open>divide_numbers(5, 0)\<close>, fails on its sixth attempt; the third stage (task-id 2)
  never enters the queue.
\<close>

theorem chain_short_circuit_witness:
  "\<exists>s0. submit_chain worker_registry
           [(''add_numbers'', [PInt 2, PInt 3]), (''divide_numbers'', [PInt 0]),
            (''add_numbers'', [PInt 1])] init = Inr (2, s0) \<and>
     get_status (run worker_registry [0, 0, 0, 0, 0, 0, 0] s0) 1
       = FAILURE (ZeroDivisionError ''Cannot divide by zero'') \<and>
     2 \<notin> set (enqueued_ids (events (run worker_registry [0, 0, 0, 0, 0, 0, 0] s0))) \<and>
     get_status (run worker_registry [0, 0, 0, 0, 0, 0, 0] s0) 2
       = FAILURE (ZeroDivisionError ''Cannot divide by zero'')"
proof -
  let ?stages = "[(''add_numbers'', [PInt 2, PInt 3]), (''divide_numbers'', [PInt 0]),
            (''add_numbers'', [PInt 1])]"
  obtain s0 where s0: "submit_chain worker_registry ?stages init = Inr (2, s0)"
    and lit: "s0 = \<lparr>queue = [\<lparr>task_id = 0, kind = ''add_numbers'', args = [PInt 2, PInt 3],
                     retry_count = 0, not_before = 0, group_id = None,
                     next_stage = [\<lparr>t_id = Suc 0, t_kind = ''divide_numbers'', t_args = [PInt 0]\<rparr>,
                                   \<lparr>t_id = 2, t_kind = ''add_numbers'', t_args = [PInt 1]\<rparr>],
                     callback = None\<rparr>],
           store = \<lambda>_. None, ledger = \<lambda>_. None, now = 0,
           events = [Enqueued 0 ''add_numbers'' [PInt 2, PInt 3]], next_id = 3\<rparr>"
    by (simp add: submit_chain_def unknown_kind_def worker_registry_def enqueue_def
        instantiate_def init_def)
  have f: "get_status (run worker_registry [0, 0, 0, 0, 0, 0, 0] s0) 1
       = FAILURE (ZeroDivisionError ''Cannot divide by zero'')"
    unfolding lit by (simp add: engine_defs worker_defs Let_def)
  have "(1::nat) < length ?stages" by simp
  with chain_short_circuit
    [of worker_registry ?stages 2 s0 1 "[0, 0, 0, 0, 0, 0, 0]"
       "ZeroDivisionError ''Cannot divide by zero''"] s0 f
  have "(\<forall>j. 1 < j \<and> j < length ?stages \<longrightarrow>
           j \<notin> set (enqueued_ids (events (run worker_registry [0, 0, 0, 0, 0, 0, 0] s0)))) \<and>
     get_status (run worker_registry [0, 0, 0, 0, 0, 0, 0] s0) 2
       = FAILURE (ZeroDivisionError ''Cannot divide by zero'')"
    by blast
  then have "2 \<notin> set (enqueued_ids (events (run worker_registry [0, 0, 0, 0, 0, 0, 0] s0))) \<and>
     get_status (run worker_registry [0, 0, 0, 0, 0, 0, 0] s0) 2
       = FAILURE (ZeroDivisionError ''Cannot divide by zero'')"
    by simp
  with s0 f show ?thesis by blast
qed

section \<open>Chords\<close>

lemma enqueues_append: "enqueues tid (es @ es') = enqueues tid es @ enqueues tid es'"
  by (induction tid es rule: enqueues.induct) simp_all

lemma fan_in_mark:
  assumes "group_id env = Some g" "callback env = Some cb" "ledger s g = Some grp"
    "task_id env \<notin> set (terminal grp)" "task_id env \<in> set (members grp)"
    "\<not> set (members grp) \<subseteq> set (terminal grp @ [task_id env])"
  shows "fan_in env s = s\<lparr>ledger := (ledger s)(g \<mapsto> grp\<lparr>terminal := terminal grp @ [task_id env]\<rparr>)\<rparr>"
  using assms by (simp add: fan_in_def Let_def)

lemma fan_in_fire:
  assumes "group_id env = Some g" "callback env = Some cb" "ledger s g = Some grp"
    "task_id env \<notin> set (terminal grp)" "task_id env \<in> set (members grp)"
    "set (members grp) \<subseteq> set (terminal grp @ [task_id env])"
  shows "fan_in env s
           = enqueue (instantiate cb [PList (map (sibling_result s) (members grp))] [] (now s))
               (s\<lparr>ledger := (ledger s)(g := None)\<rparr>)"
  using assms by (simp add: fan_in_def Let_def)

lemma remove_nth_ids:
  assumes "distinct (map f xs)" "i < length xs"
  shows "distinct (map f (take i xs @ drop (Suc i) xs))"
    and "set (map f (take i xs @ drop (Suc i) xs)) = set (map f xs) - {f (xs ! i)}"
proof -
  have xs: "xs = take i xs @ xs ! i # drop (Suc i) xs"
    using assms(2) by (rule id_take_nth_drop)
  have d: "distinct (map f (take i xs @ xs ! i # drop (Suc i) xs))"
    using assms(1) xs by metis
  then show "distinct (map f (take i xs @ drop (Suc i) xs))" by simp
  have "set (map f xs) = set (map f (take i xs @ xs ! i # drop (Suc i) xs))"
    using xs by metis
  with d show "set (map f (take i xs @ drop (Suc i) xs)) = set (map f xs) - {f (xs ! i)}"
    by auto
qed

lemma sibling_result_cong:
  "(\<And>m. m \<in> set ms \<Longrightarrow> store s m = store s' m) \<Longrightarrow>
   map (sibling_result s) ms = map (sibling_result s') ms"
  by (simp add: sibling_result_def)


lemma waiting_terminal:
  assumes cb: "t_id cb = Suc N"
    and w: "waiting N cb s" and i: "i < length (queue s)"
    and q1: "queue s1 = take i (queue s) @ drop (Suc i) (queue s)"
    and st1: "store s1 = (store s)(task_id (queue s ! i) \<mapsto> R)" and R: "ready R"
    and l1: "ledger s1 = ledger s"
    and e1: "events s1 = events s @ [Invoked (task_id (queue s ! i)) r a]"
  shows "chord_inv N cb (fan_in (queue s ! i) s1)"
proof -
  let ?env = "queue s ! i"
  let ?m = "task_id ?env"
  let ?M = "[1..<Suc N]"
  from w obtain grp where grp: "ledger s 0 = Some grp" "members grp = ?M"
    and dist: "distinct (map task_id (queue s))"
    and ids: "set (map task_id (queue s)) = {1..N} - set (terminal grp)"
    and tsub: "set (terminal grp) \<subseteq> {1..N}"
    and envs: "\<forall>env \<in> set (queue s). group_id env = Some 0 \<and> callback env = Some cb \<and>
           next_stage env = [] \<and> \<not> ready (get_status s (task_id env))"
    and tready: "\<forall>m \<in> set (terminal grp). ready (get_status s m)"
    and tr: "enqueues (Suc N) (events s) = []" "invocations (Suc N) (events s) = []"
      "retry_delays (Suc N) (events s) = []"
    unfolding waiting_def by blast
  have mem: "?env \<in> set (queue s)" using i by simp
  then have env: "group_id ?env = Some 0" "callback ?env = Some cb"
    using envs by blast+
  have "?m \<in> set (map task_id (queue s))" using mem by simp
  with ids have m: "?m \<in> {1..N}" "?m \<notin> set (terminal grp)" by blast+
  then have mN: "?m \<noteq> Suc N" by simp
  have setM: "set (members grp) = {1..N}" using grp(2) by auto
  have mM: "?m \<in> set (members grp)" using m setM by simp
  have rdist: "distinct (map task_id (queue s1))"
    and rids: "set (map task_id (queue s1)) = {1..N} - set (terminal grp) - {?m}"
    using remove_nth_ids [OF dist i] ids by (simp_all only: q1)
  have rsub: "set (queue s1) \<subseteq> set (queue s)"
    unfolding q1 by (auto dest: in_set_takeD in_set_dropD)
  have other: "\<And>x. x \<noteq> ?m \<Longrightarrow> get_status s1 x = get_status s x"
    by (simp add: get_status_def st1)
  have self: "get_status s1 ?m = R"
    by (simp add: get_status_def st1)
  have l10: "ledger s1 0 = Some grp" using grp l1 by simp
  have tr1: "enqueues (Suc N) (events s1) = []" "invocations (Suc N) (events s1) = []"
      "retry_delays (Suc N) (events s1) = []"
    using tr mN by (simp_all add: e1 enqueues_append invocations_append retry_delays_append)
  show ?thesis
  proof (cases "set (members grp) \<subseteq> set (terminal grp @ [?m])")
    case True
    let ?inp = "PList (map (sibling_result s1) ?M)"
    let ?s' = "enqueue (instantiate cb [?inp] [] (now s1)) (s1\<lparr>ledger := (ledger s1)(0 := None)\<rparr>)"
    have f: "fan_in ?env s1 = ?s'"
      using fan_in_fire [OF env l10 m(2) mM True] grp by simp
    have "set (map task_id (queue s1)) = {}"
      using rids True setM by auto
    then have rempty: "queue s1 = []" by simp
    have allready: "\<forall>m' \<in> {1..N}. ready (get_status s1 m')"
    proof
      fix m' assume m': "m' \<in> {1..N}"
      show "ready (get_status s1 m')"
      proof (cases "m' = ?m")
        case True
        then show ?thesis using self R by simp
      next
        case False
        with m' \<open>set (members grp) \<subseteq> set (terminal grp @ [?m])\<close> setM
        have "m' \<in> set (terminal grp)" by auto
        with tready other [OF False] show ?thesis by simp
      qed
    qed
    have sr: "map (sibling_result ?s') ?M = map (sibling_result s1) ?M"
      by (rule sibling_result_cong) (simp add: enqueue_def)
    have gs: "\<And>x. get_status ?s' x = get_status s1 x"
      by (simp add: get_status_def enqueue_def)
    have ev: "events ?s' = events s1 @ [Enqueued (Suc N) (t_kind cb) (?inp # t_args cb)]"
      and qu: "queue ?s' = [instantiate cb [?inp] [] (now s1)]"
      and le: "ledger ?s' 0 = None"
      using rempty cb by (simp_all add: enqueue_def instantiate_def del: upt_Suc)
    have A: "\<forall>m \<in> {1..N}. ready (get_status ?s' m)"
      using allready by (simp only: gs)
    have B: "enqueues (Suc N) (events ?s')
        = [(t_kind cb, PList (map (sibling_result ?s') ?M) # t_args cb)]"
      unfolding sr ev using tr1 by (simp add: enqueues_append del: upt_Suc)
    have C0: "invocations (Suc N) (events ?s') = []" "retry_delays (Suc N) (events ?s') = []"
      unfolding ev using tr1 by (simp_all add: invocations_append retry_delays_append)
    have C: "\<forall>inv \<in> set (invocations (Suc N) (events ?s')).
         snd inv = PList (map (sibling_result ?s') ?M) # t_args cb"
      unfolding C0 by simp
    have D: "length (invocations (Suc N) (events ?s')) + (if queue ?s' = [] then 0 else 1)
        = Suc (length (retry_delays (Suc N) (events ?s')))"
      unfolding C0 qu by simp
    have E: "queue ?s' = [] \<or>
       (\<exists>env. queue ?s' = [env] \<and> task_id env = Suc N \<and> group_id env = None \<and>
          next_stage env = [] \<and> kind env = t_kind cb \<and>
          args env = PList (map (sibling_result ?s') ?M) # t_args cb)"
      unfolding sr qu using cb by (simp add: instantiate_def del: upt_Suc)
    have "fired N cb ?s'"
      unfolding fired_def by (intro conjI le A B C D E)
    then show ?thesis by (simp add: chord_inv_def f)
  next
    case False
    let ?grp' = "grp\<lparr>terminal := terminal grp @ [?m]\<rparr>"
    let ?s' = "s1\<lparr>ledger := (ledger s1)(0 \<mapsto> ?grp')\<rparr>"
    have f: "fan_in ?env s1 = ?s'"
      using fan_in_mark [OF env l10 m(2) mM False] by simp
    from False have "\<exists>x \<in> set (members grp). x \<notin> set (terminal grp @ [?m])" by blast
    then obtain x where x: "x \<in> {1..N}" "x \<notin> set (terminal grp)" "x \<noteq> ?m"
      unfolding setM by auto
    with rids have "x \<in> set (map task_id (queue s1))" by simp
    then have rne: "queue s1 \<noteq> []" by auto
    have gs: "\<And>x. get_status ?s' x = get_status s1 x"
      by (simp add: get_status_def)
    have envs1: "\<forall>env \<in> set (queue s1). group_id env = Some 0 \<and> callback env = Some cb \<and>
           next_stage env = [] \<and> \<not> ready (get_status s1 (task_id env))"
    proof
      fix env assume e: "env \<in> set (queue s1)"
      then have "task_id env \<in> set (map task_id (queue s1))" by simp
      with rids have "task_id env \<noteq> ?m" by simp
      with e rsub envs other show "group_id env = Some 0 \<and> callback env = Some cb \<and>
           next_stage env = [] \<and> \<not> ready (get_status s1 (task_id env))"
        by auto
    qed
    have tready1: "\<forall>m' \<in> set (terminal grp @ [?m]). ready (get_status s1 m')"
    proof
      fix m' assume "m' \<in> set (terminal grp @ [?m])"
      then consider "m' = ?m" | "m' \<in> set (terminal grp)" "m' \<noteq> ?m"
        using m(2) by auto
      then show "ready (get_status s1 m')"
      proof cases
        case 1
        then show ?thesis using self R by simp
      next
        case 2
        then have "ready (get_status s m')" using tready by blast
        then show ?thesis using other [OF 2(2)] by simp
      qed
    qed
    have "waiting N cb ?s'"
      unfolding waiting_def
      apply (rule exI [of _ ?grp'])
      using grp rdist rne rids tsub m envs1 tready1 tr1
      by (simp add: gs) auto
    then show ?thesis by (simp add: chord_inv_def f)
  qed
qed


lemma waiting_step:
  assumes cb: "t_id cb = Suc N" and w: "waiting N cb s"
  shows "chord_inv N cb (step reg i s)"
proof (cases "i < length (queue s)")
  case False
  with w show ?thesis by (simp add: step_idle chord_inv_def)
next
  case True
  let ?env = "queue s ! i"
  let ?m = "task_id ?env"
  from w obtain grp where grp: "ledger s 0 = Some grp" "members grp = [1..<Suc N]"
    and dist: "distinct (map task_id (queue s))"
    and ids: "set (map task_id (queue s)) = {1..N} - set (terminal grp)"
    and tsub: "set (terminal grp) \<subseteq> {1..N}"
    and envs: "\<forall>env \<in> set (queue s). group_id env = Some 0 \<and> callback env = Some cb \<and>
           next_stage env = [] \<and> \<not> ready (get_status s (task_id env))"
    and tready: "\<forall>m \<in> set (terminal grp). ready (get_status s m)"
    and tr: "enqueues (Suc N) (events s) = []" "invocations (Suc N) (events s) = []"
      "retry_delays (Suc N) (events s) = []"
    unfolding waiting_def by blast
  have mem: "?env \<in> set (queue s)" using True by simp
  then have env: "group_id ?env = Some 0" "callback ?env = Some cb" "next_stage ?env = []"
    using envs by blast+
  have "?m \<in> set (map task_id (queue s))" using mem by simp
  with ids have m: "?m \<in> {1..N}" "?m \<notin> set (terminal grp)" by blast+
  then have mN: "?m \<noteq> Suc N" by simp
  show ?thesis
  proof (cases "verdict reg ?env")
    case (Succeeded v)
    let ?s1 = "write_result ?m (SUCCESS v) (taken i s)"
    have "step reg i s = fan_in ?env ?s1"
      using True Succeeded env by (simp add: step_verdict on_success_def)
    moreover have "chord_inv N cb (fan_in ?env ?s1)"
      by (rule waiting_terminal [OF cb w True, where R = "SUCCESS v"])
        (simp_all add: write_result_def taken_simps)
    ultimately show ?thesis by simp
  next
    case (Failed e)
    let ?s1 = "write_result (chain_id ?env) (FAILURE e) (write_result ?m (FAILURE e) (taken i s))"
    have "step reg i s = fan_in ?env ?s1"
      using True Failed by (simp add: step_verdict on_failure_def)
    moreover have "chord_inv N cb (fan_in ?env ?s1)"
      by (rule waiting_terminal [OF cb w True, where R = "FAILURE e"])
        (simp_all add: write_result_def taken_simps chain_id_def env)
    ultimately show ?thesis by simp
  next
    case (Retried e delay)
    note st = step_retried [OF True Retried]
    let ?env' = "?env\<lparr>retry_count := retry_count ?env + 1, not_before := now (taken i s) + delay\<rparr>"
    have rdist: "distinct (map task_id (take i (queue s) @ drop (Suc i) (queue s)))"
      and rids: "set (map task_id (take i (queue s) @ drop (Suc i) (queue s)))
                   = {1..N} - set (terminal grp) - {?m}"
      using remove_nth_ids [OF dist True] ids by simp_all
    have rsub: "set (take i (queue s) @ drop (Suc i) (queue s)) \<subseteq> set (queue s)"
      by (auto dest: in_set_takeD in_set_dropD)
    have other: "\<And>x. x \<noteq> ?m \<Longrightarrow> get_status (step reg i s) x = get_status s x"
      by (simp add: get_status_def st)
    have self: "get_status (step reg i s) ?m = RETRY"
      by (simp add: get_status_def st)
    have mnot: "?m \<notin> set (map task_id (take i (queue s) @ drop (Suc i) (queue s)))"
      unfolding rids by simp
    have A: "distinct (map task_id (queue (step reg i s)))"
      using rdist mnot by (simp add: st)
    have B: "set (map task_id (queue (step reg i s))) = {1..N} - set (terminal grp)"
      using rids m by (auto simp: st)
    have C: "\<forall>env \<in> set (queue (step reg i s)). group_id env = Some 0 \<and>
        callback env = Some cb \<and> next_stage env = [] \<and>
        \<not> ready (get_status (step reg i s) (task_id env))"
    proof
      fix x assume "x \<in> set (queue (step reg i s))"
      then consider "x = ?env'" | "x \<in> set (take i (queue s) @ drop (Suc i) (queue s))"
        by (auto simp: st)
      then show "group_id x = Some 0 \<and> callback x = Some cb \<and> next_stage x = [] \<and>
        \<not> ready (get_status (step reg i s) (task_id x))"
      proof cases
        case 1
        then show ?thesis using env self by simp
      next
        case 2
        then have "task_id x \<in> set (map task_id (take i (queue s) @ drop (Suc i) (queue s)))"
          by (simp only: set_map) (rule imageI)
        with rids have "task_id x \<noteq> ?m" by simp
        with 2 rsub envs other show ?thesis by auto
      qed
    qed
    have D: "\<forall>m' \<in> set (terminal grp). ready (get_status (step reg i s) m')"
    proof
      fix m' assume m': "m' \<in> set (terminal grp)"
      with m(2) have "m' \<noteq> ?m" by auto
      with tready m' other show "ready (get_status (step reg i s) m')" by simp
    qed
    have E: "enqueues (Suc N) (events (step reg i s)) = []"
      "invocations (Suc N) (events (step reg i s)) = []"
      "retry_delays (Suc N) (events (step reg i s)) = []"
      using tr mN by (simp_all add: st enqueues_append invocations_append retry_delays_append)
    have F: "queue (step reg i s) \<noteq> []" by (simp add: st)
    have G: "ledger (step reg i s) 0 = Some grp" using grp by (simp add: st)
    have "waiting N cb (step reg i s)"
      unfolding waiting_def
      by (rule exI [of _ grp]) (intro conjI G grp(2) A F B tsub C D E)
    then show ?thesis by (simp add: chord_inv_def)
  qed
qed

lemma fired_step:
  assumes cb: "t_id cb = Suc N" and f: "fired N cb s"
  shows "fired N cb (step reg i s)"
proof (cases "i < length (queue s)")
  case False
  with f show ?thesis by (simp add: step_idle)
next
  case True
  let ?M = "[1..<Suc N]"
  let ?inp = "PList (map (sibling_result s) ?M) # t_args cb"
  from f have led: "ledger s 0 = None" and rdy: "\<forall>m \<in> {1..N}. ready (get_status s m)"
    and enq: "enqueues (Suc N) (events s) = [(t_kind cb, ?inp)]"
    and inv: "\<forall>inv \<in> set (invocations (Suc N) (events s)). snd inv = ?inp"
    and cnt: "length (invocations (Suc N) (events s)) + (if queue s = [] then 0 else 1)
        = Suc (length (retry_delays (Suc N) (events s)))"
    and q: "queue s = [] \<or>
       (\<exists>env. queue s = [env] \<and> task_id env = Suc N \<and> group_id env = None \<and>
          next_stage env = [] \<and> kind env = t_kind cb \<and> args env = ?inp)"
    unfolding fired_def by blast+
  from True q obtain env where env: "queue s = [env]" "task_id env = Suc N"
    "group_id env = None" "next_stage env = []" "kind env = t_kind cb" "args env = ?inp"
    by auto
  from True env have i0: "i = 0" and qi: "queue s ! i = env" by simp_all
  have cid: "chain_id env = Suc N" using env by (simp add: chain_id_def)
  have cnt': "length (invocations (Suc N) (events s)) = length (retry_delays (Suc N) (events s))"
    using cnt env by simp
  have keep: "store (step reg i s) m = store s m" if "m \<in> set ?M" for m
  proof -
    from that have mN: "m \<noteq> Suc N" by auto
    show ?thesis
    proof (cases "verdict reg env")
      case (Succeeded v)
      from step_success_last(2) [OF True, of reg v, unfolded qi, OF Succeeded env(4) env(3)]
      show ?thesis using mN env by simp
    next
      case (Failed e)
      from step_failed_plain(2) [OF True, of reg e, unfolded qi, OF Failed env(3)]
      show ?thesis using mN env cid by simp
    next
      case (Retried e delay)
      from step_retried(2) [OF True, of reg e delay, unfolded qi, OF Retried]
      show ?thesis using mN env by simp
    qed
  qed
  have sr: "map (sibling_result (step reg i s)) ?M = map (sibling_result s) ?M"
    by (rule sibling_result_cong) (rule keep)
  have A: "\<forall>m \<in> {1..N}. ready (get_status (step reg i s) m)"
  proof
    fix m assume m: "m \<in> {1..N}"
    then have "m \<in> set ?M" by auto
    from keep [OF this] have "get_status (step reg i s) m = get_status s m"
      by (simp add: get_status_def)
    with rdy m show "ready (get_status (step reg i s) m)" by simp
  qed
  have rest: "ledger (step reg i s) 0 = None \<and>
      enqueues (Suc N) (events (step reg i s)) = [(t_kind cb, ?inp)] \<and>
      (\<forall>inv \<in> set (invocations (Suc N) (events (step reg i s))). snd inv = ?inp) \<and>
      length (invocations (Suc N) (events (step reg i s)))
          + (if queue (step reg i s) = [] then 0 else 1)
        = Suc (length (retry_delays (Suc N) (events (step reg i s)))) \<and>
      (queue (step reg i s) = [] \<or>
       (\<exists>env. queue (step reg i s) = [env] \<and> task_id env = Suc N \<and> group_id env = None \<and>
          next_stage env = [] \<and> kind env = t_kind cb \<and> args env = ?inp))"
  proof (cases "verdict reg env")
    case (Succeeded v)
    note st = step_success_last [OF True, of reg v, unfolded qi, OF Succeeded env(4) env(3), unfolded i0]
    show ?thesis
      using led enq inv cnt' env(2-6)
      by (simp add: st env(1) i0 enqueues_append invocations_append retry_delays_append
          del: upt_Suc)
  next
    case (Failed e)
    note st = step_failed_plain [OF True, of reg e, unfolded qi, OF Failed env(3), unfolded i0]
    show ?thesis
      using led enq inv cnt' env(2-6)
      by (simp add: st env(1) i0 enqueues_append invocations_append retry_delays_append
          del: upt_Suc)
  next
    case (Retried e delay)
    note st = step_retried [OF True, of reg e delay, unfolded qi, OF Retried, unfolded i0]
    show ?thesis
      using led enq inv cnt' env(2-6)
      by (simp add: st env(1) i0 enqueues_append invocations_append retry_delays_append
          del: upt_Suc)
  qed
  show ?thesis
    unfolding fired_def sr using A rest by blast
qed

lemma chord_inv_step: "t_id cb = Suc N \<Longrightarrow> chord_inv N cb s \<Longrightarrow> chord_inv N cb (step reg i s)"
  unfolding chord_inv_def [of N cb s]
  using waiting_step [of cb N s reg i] fired_step [of cb N s reg i]
  by (auto simp: chord_inv_def)

lemma chord_inv_run:
  "t_id cb = Suc N \<Longrightarrow> chord_inv N cb s \<Longrightarrow> chord_inv N cb (run reg schedule s)"
  unfolding run_def by (induction schedule arbitrary: s) (simp_all add: chord_inv_step)

lemma fold_enqueue_events:
  "events (fold enqueue envs s)
     = events s @ map (\<lambda>env. Enqueued (task_id env) (kind env) (args env)) envs"
  by (induction envs arbitrary: s) (simp_all add: enqueue_def)

lemma enqueues_other:
  "c \<notin> task_id ` set envs \<Longrightarrow>
   enqueues c (map (\<lambda>env. Enqueued (task_id env) (kind env) (args env)) envs) = []"
  by (induction envs) auto

lemma invocations_enqueued:
  "invocations c (map (\<lambda>env. Enqueued (task_id env) (kind env) (args env)) envs) = []"
  by (induction envs) auto

lemma retry_delays_enqueued:
  "retry_delays c (map (\<lambda>env. Enqueued (task_id env) (kind env) (args env)) envs) = []"
  by (induction envs) auto

lemma templates_kinds: "map (\<lambda>t. (t_kind t, t_args t)) (templates b hs) = hs"
  by (induction b hs rule: templates.induct) simp_all

lemma templates_Nil: "templates b hs = [] \<longleftrightarrow> hs = []"
  by (cases hs) auto

lemma submit_chord_inv:
  assumes "submit_chord reg header body init = Inr (cid, s0)"
  shows "cid = Suc (length header)"
    and "chord_inv (length header)
           \<lparr>t_id = Suc (length header), t_kind = fst body, t_args = snd body\<rparr> s0"
    and "header \<noteq> [] \<Longrightarrow> map task_id (queue s0) = [1..<Suc (length header)]"
    and "header \<noteq> [] \<Longrightarrow> map (\<lambda>env. (kind env, args env)) (queue s0) = header"
proof -
  let ?N = "length header"
  let ?cb = "\<lparr>t_id = Suc ?N, t_kind = fst body, t_args = snd body\<rparr>"
  let ?ts = "templates (Suc 0) header"
  let ?s1 = "init\<lparr>next_id := Suc (Suc ?N)\<rparr>"
  from assms have cid: "cid = Suc ?N"
    and s0: "s0 = (if ?ts = [] then enqueue (instantiate ?cb [PList []] [] 0) ?s1
               else fold enqueue (map (member_envelope 0 ?cb 0) ?ts)
                      (?s1\<lparr>ledger := (ledger ?s1)(0 \<mapsto> \<lparr>members = map t_id ?ts, terminal = []\<rparr>)\<rparr>))"
    by (auto simp: submit_chord_def init_def Let_def split: option.splits)
  show "cid = Suc ?N" by (rule cid)
  have ids: "map t_id ?ts = [1..<Suc ?N]"
    using templates_ids [of "Suc 0" header] by simp
  have mids: "map task_id (map (member_envelope 0 ?cb 0) ?ts) = [1..<Suc ?N]"
    using ids by (simp add: member_envelope_def instantiate_def comp_def)
  have mkinds: "map (\<lambda>env. (kind env, args env)) (map (member_envelope 0 ?cb 0) ?ts) = header"
    using templates_kinds [of "Suc 0" header]
    by (simp add: member_envelope_def instantiate_def comp_def)
  show "map task_id (queue s0) = [1..<Suc ?N]" if "header \<noteq> []"
    using that mids by (simp add: s0 templates_Nil fold_enqueue_queue init_def)
  show "map (\<lambda>env. (kind env, args env)) (queue s0) = header" if "header \<noteq> []"
    using that mkinds by (simp add: s0 templates_Nil fold_enqueue_queue init_def)
  show "chord_inv ?N ?cb s0"
  proof (cases "header = []")
    case True
    then have "fired ?N ?cb s0"
      by (simp add: s0 fired_def enqueue_def instantiate_def init_def)
    then show ?thesis by (simp add: chord_inv_def)
  next
    case False
    let ?envs = "map (member_envelope 0 ?cb 0) ?ts"
    let ?s2 = "?s1\<lparr>ledger := (ledger ?s1)(0 \<mapsto> \<lparr>members = map t_id ?ts, terminal = []\<rparr>)\<rparr>"
    from False have s0': "s0 = fold enqueue ?envs ?s2"
      by (simp add: s0 templates_Nil)
    have q: "queue s0 = ?envs"
      by (simp add: s0' fold_enqueue_queue init_def)
    have notin: "Suc ?N \<notin> task_id ` set ?envs"
    proof -
      have "task_id ` set ?envs = set (map task_id ?envs)" by (rule set_map [symmetric])
      also have "\<dots> = {1..?N}" unfolding mids by auto
      finally show ?thesis by simp
    qed
    have A: "ledger s0 0 = Some \<lparr>members = map t_id ?ts, terminal = []\<rparr>"
      by (simp add: s0' fold_enqueue_ledger)
    have B: "distinct (map task_id (queue s0))"
      unfolding q mids by simp
    have C: "queue s0 \<noteq> []"
      using False by (simp add: q templates_Nil)
    have D: "set (map task_id (queue s0)) = {1..?N} - set []"
      unfolding q mids by auto
    have E: "\<forall>env \<in> set (queue s0). group_id env = Some 0 \<and> callback env = Some ?cb \<and>
           next_stage env = [] \<and> \<not> ready (get_status s0 (task_id env))"
      unfolding q
      by (auto simp: member_envelope_def instantiate_def get_status_def s0' fold_enqueue_store
          init_def)
    have ev: "events s0 = map (\<lambda>env. Enqueued (task_id env) (kind env) (args env)) ?envs"
      unfolding s0' fold_enqueue_events by (simp add: init_def del: map_map)
    have F: "enqueues (Suc ?N) (events s0) = []" "invocations (Suc ?N) (events s0) = []"
      "retry_delays (Suc ?N) (events s0) = []"
      unfolding ev
      by (rule enqueues_other [OF notin], rule invocations_enqueued, rule retry_delays_enqueued)
    have "waiting ?N ?cb s0"
      unfolding waiting_def
      apply (rule exI [of _ "\<lparr>members = map t_id ?ts, terminal = []\<rparr>"])
      using A B C D E F ids by simp
    then show ?thesis by (simp add: chord_inv_def)
  qed
qed

text \<open>The engine state right after \<open>calculate_chord(x, y, z)\<close> on an idle engine.\<close>

lemma calculate_chord_init:
  "calculate_chord x y z init =
     Inr (3,
          \<lparr>queue = [\<lparr>task_id = 1, kind = ''add_numbers'', args = [PInt x, PInt y],
                     retry_count = 0, not_before = 0, group_id = Some 0, next_stage = [],
                     callback = Some \<lparr>t_id = 3, t_kind = ''aggregate_results'', t_args = []\<rparr>\<rparr>,
                    \<lparr>task_id = 2, kind = ''divide_numbers'', args = [PInt x, PInt z],
                     retry_count = 0, not_before = 0, group_id = Some 0, next_stage = [],
                     callback = Some \<lparr>t_id = 3, t_kind = ''aggregate_results'', t_args = []\<rparr>\<rparr>],
           store = \<lambda>_. None,
           ledger = (\<lambda>_. None)(0 \<mapsto> \<lparr>members = [1, 2], terminal = []\<rparr>),
           now = 0,
           events = [Enqueued 1 ''add_numbers'' [PInt x, PInt y],
                     Enqueued 2 ''divide_numbers'' [PInt x, PInt z]], next_id = 4\<rparr>)"
proof -
  have uk: "unknown_kind worker_registry
      ([(''add_numbers'', [PInt x, PInt y]), (''divide_numbers'', [PInt x, PInt z])]
       @ [(''aggregate_results'', [])]) = None"
    by (simp add: unknown_kind_def worker_registry_def)
  show ?thesis
    unfolding calculate_chord_def submit_chord_def uk
    apply (simp add: enqueue_def instantiate_def member_envelope_def init_def Let_def)
    apply (simp only: numeral_2_eq_2)
    done
qed

text \<open>
  C3. A chord over \<open>N\<close> siblings submitted on an idle engine, run under any schedule (the
  schedule fixes the order in which the siblings are taken, retried and completed). The
  siblings have the task-ids \<open>1, ..., N\<close> in group-definition order and the callback the
  id \<open>N + 1\<close>. At every moment the callback's envelope has entered the queue at most
  once; it has entered if and only if every sibling is in a terminal state; its leading
  argument, and that of every invocation of the callback, is the list of the \<open>N\<close> sibling
  results read from the result store in group-definition order; and once the queue is
  empty the callback has been enqueued exactly once and invoked once, plus once for each
  retry its own handler asked for.
\<close>

theorem chord_fan_in:
  "submit_chord reg header body init = Inr (cid, s0) \<longrightarrow>
     (let N = length header; S = run reg schedule s0;
          input = PList (map (sibling_result S) [1..<Suc N]) # snd body
      in cid = Suc N \<and>
         (header \<noteq> [] \<longrightarrow>
            map task_id (queue s0) = [1..<Suc N] \<and>
            map (\<lambda>env. (kind env, args env)) (queue s0) = header) \<and>
         (enqueues cid (events S) = [] \<or> enqueues cid (events S) = [(fst body, input)]) \<and>
         ((\<forall>m \<in> {1..N}. ready (get_status S m)) \<longleftrightarrow> enqueues cid (events S) \<noteq> []) \<and>
         (\<forall>inv \<in> set (invocations cid (events S)). snd inv = input) \<and>
         (queue S = [] \<longrightarrow>
            enqueues cid (events S) = [(fst body, input)] \<and>
            length (invocations cid (events S)) = Suc (length (retry_delays cid (events S)))) \<and>
         length (map (sibling_result S) [1..<Suc N]) = N)"
proof
  assume sub: "submit_chord reg header body init = Inr (cid, s0)"
  let ?N = "length header"
  let ?S = "run reg schedule s0"
  let ?cb = "\<lparr>t_id = Suc ?N, t_kind = fst body, t_args = snd body\<rparr>"
  let ?input = "PList (map (sibling_result ?S) [1..<Suc ?N]) # snd body"
  note init = submit_chord_inv [OF sub]
  have inv: "chord_inv ?N ?cb ?S"
    by (rule chord_inv_run) (simp_all add: init(2))
  have cid: "cid = Suc ?N" by (rule init(1))
  have main: "(enqueues (Suc ?N) (events ?S) = [] \<or>
        enqueues (Suc ?N) (events ?S) = [(fst body, ?input)]) \<and>
       ((\<forall>m \<in> {1..?N}. ready (get_status ?S m)) \<longleftrightarrow> enqueues (Suc ?N) (events ?S) \<noteq> []) \<and>
       (\<forall>inv \<in> set (invocations (Suc ?N) (events ?S)). snd inv = ?input) \<and>
       (queue ?S = [] \<longrightarrow>
          enqueues (Suc ?N) (events ?S) = [(fst body, ?input)] \<and>
          length (invocations (Suc ?N) (events ?S))
            = Suc (length (retry_delays (Suc ?N) (events ?S))))"
  proof (cases "waiting ?N ?cb ?S")
    case True
    then have "\<exists>grp. ledger ?S 0 = Some grp \<and> members grp = [1..<Suc ?N] \<and>
        distinct (map task_id (queue ?S)) \<and> queue ?S \<noteq> [] \<and>
        set (map task_id (queue ?S)) = {1..?N} - set (terminal grp) \<and>
        set (terminal grp) \<subseteq> {1..?N} \<and>
        (\<forall>env \<in> set (queue ?S). group_id env = Some 0 \<and> callback env = Some ?cb \<and>
           next_stage env = [] \<and> \<not> ready (get_status ?S (task_id env))) \<and>
        (\<forall>m \<in> set (terminal grp). ready (get_status ?S m)) \<and>
        enqueues (Suc ?N) (events ?S) = [] \<and> invocations (Suc ?N) (events ?S) = [] \<and>
        retry_delays (Suc ?N) (events ?S) = []"
      unfolding waiting_def .
    then obtain grp where g: "ledger ?S 0 = Some grp \<and> members grp = [1..<Suc ?N] \<and>
        distinct (map task_id (queue ?S)) \<and> queue ?S \<noteq> [] \<and>
        set (map task_id (queue ?S)) = {1..?N} - set (terminal grp) \<and>
        set (terminal grp) \<subseteq> {1..?N} \<and>
        (\<forall>env \<in> set (queue ?S). group_id env = Some 0 \<and> callback env = Some ?cb \<and>
           next_stage env = [] \<and> \<not> ready (get_status ?S (task_id env))) \<and>
        (\<forall>m \<in> set (terminal grp). ready (get_status ?S m)) \<and>
        enqueues (Suc ?N) (events ?S) = [] \<and> invocations (Suc ?N) (events ?S) = [] \<and>
        retry_delays (Suc ?N) (events ?S) = []" ..
    from g have ne: "queue ?S \<noteq> []" by (elim conjE)
    from g have ids: "set (map task_id (queue ?S)) = {1..?N} - set (terminal grp)"
      by (elim conjE)
    from g have envs: "\<forall>env \<in> set (queue ?S). group_id env = Some 0 \<and> callback env = Some ?cb \<and>
           next_stage env = [] \<and> \<not> ready (get_status ?S (task_id env))"
      by (elim conjE)
    from g have tr: "enqueues (Suc ?N) (events ?S) = []" by (elim conjE)
    from g have tr2: "invocations (Suc ?N) (events ?S) = []" by (elim conjE)
    from ne obtain env where env: "env \<in> set (queue ?S)" by (cases "queue ?S") auto
    then have "task_id env \<in> set (map task_id (queue ?S))" by simp
    with ids have "task_id env \<in> {1..?N}" by blast
    moreover from envs env have "\<not> ready (get_status ?S (task_id env))" by blast
    ultimately have "\<not> (\<forall>m \<in> {1..?N}. ready (get_status ?S m))" by blast
    with ne tr tr2 show ?thesis by simp
  next
    case False
    with inv have "fired ?N ?cb ?S" by (simp add: chord_inv_def)
    then show ?thesis unfolding fired_def by (auto simp del: upt_Suc)
  qed
  show "let N = length header; S = run reg schedule s0;
          input = PList (map (sibling_result S) [1..<Suc N]) # snd body
      in cid = Suc N \<and>
         (header \<noteq> [] \<longrightarrow>
            map task_id (queue s0) = [1..<Suc N] \<and>
            map (\<lambda>env. (kind env, args env)) (queue s0) = header) \<and>
         (enqueues cid (events S) = [] \<or> enqueues cid (events S) = [(fst body, input)]) \<and>
         ((\<forall>m \<in> {1..N}. ready (get_status S m)) \<longleftrightarrow> enqueues cid (events S) \<noteq> []) \<and>
         (\<forall>inv \<in> set (invocations cid (events S)). snd inv = input) \<and>
         (queue S = [] \<longrightarrow>
            enqueues cid (events S) = [(fst body, input)] \<and>
            length (invocations cid (events S)) = Suc (length (retry_delays cid (events S)))) \<and>
         length (map (sibling_result S) [1..<Suc N]) = N"
    unfolding Let_def cid using main init(3,4) by (simp del: upt_Suc)
qed

text \<open>
  The theorem at \<open>calculate_chord(6, 3, 2)\<close>, under a schedule that completes the
  division before the addition and under one that completes the addition first: both
  times \<open>aggregate_results\<close> is given \<open>[9, 3.0]\<close>, the sum first.
\<close>

theorem chord_fan_in_witness:
  "\<exists>s0. calculate_chord 6 3 2 init = Inr (3, s0) \<and>
     queue (run worker_registry [1, 0, 0] s0) = [] \<and>
     queue (run worker_registry [0, 0, 0] s0) = [] \<and>
     enqueues 3 (events (run worker_registry [1, 0, 0] s0))
       = [(''aggregate_results'', [PList [PInt 9, PFloat 3]])] \<and>
     enqueues 3 (events (run worker_registry [0, 0, 0] s0))
       = [(''aggregate_results'', [PList [PInt 9, PFloat 3]])] \<and>
     map task_id (queue s0) = [1, 2]"
proof -
  let ?header = "[(''add_numbers'', [PInt 6, PInt 3]), (''divide_numbers'', [PInt 6, PInt 2])]"
  let ?body = "(''aggregate_results'', [] :: pyval list)"
  let ?cb = "\<lparr>t_id = 3, t_kind = ''aggregate_results'', t_args = []\<rparr>"
  obtain s0 where c: "calculate_chord 6 3 2 init = Inr (3, s0)"
    and lit: "s0 = \<lparr>queue = [\<lparr>task_id = 1, kind = ''add_numbers'', args = [PInt 6, PInt 3],
                     retry_count = 0, not_before = 0, group_id = Some 0, next_stage = [],
                     callback = Some ?cb\<rparr>,
                    \<lparr>task_id = 2, kind = ''divide_numbers'', args = [PInt 6, PInt 2],
                     retry_count = 0, not_before = 0, group_id = Some 0, next_stage = [],
                     callback = Some ?cb\<rparr>],
           store = \<lambda>_. None,
           ledger = (\<lambda>_. None)(0 \<mapsto> \<lparr>members = [1, 2], terminal = []\<rparr>),
           now = 0,
           events = [Enqueued 1 ''add_numbers'' [PInt 6, PInt 3],
                     Enqueued 2 ''divide_numbers'' [PInt 6, PInt 2]], next_id = 4\<rparr>"
    using calculate_chord_init [of 6 3 2] by blast
  have s0: "submit_chord worker_registry ?header ?body init = Inr (3, s0)"
    using c by (simp add: calculate_chord_def)
  have q1: "queue (run worker_registry [1, 0, 0] s0) = []"
    unfolding lit by (simp add: engine_defs worker_defs sibling_result_def Let_def)
  have q2: "queue (run worker_registry [0, 0, 0] s0) = []"
    unfolding lit by (simp add: engine_defs worker_defs sibling_result_def Let_def)
  have r1: "map (sibling_result (run worker_registry [1, 0, 0] s0)) [1, 2] = [PInt 9, PFloat 3]"
    unfolding lit by (simp add: engine_defs worker_defs sibling_result_def Let_def)
  have r2: "map (sibling_result (run worker_registry [0, 0, 0] s0)) [1, 2] = [PInt 9, PFloat 3]"
    unfolding lit by (simp add: engine_defs worker_defs sibling_result_def Let_def)
  have u: "[1..<Suc (length ?header)] = [1, 2]"
    by (simp add: upt_conv_Cons)
  from chord_fan_in [of worker_registry ?header ?body 3 s0 "[1, 0, 0]"] s0 q1
  have e1: "enqueues 3 (events (run worker_registry [1, 0, 0] s0))
       = [(''aggregate_results'', [PList [PInt 9, PFloat 3]])]"
    unfolding Let_def u r1 by simp
  from chord_fan_in [of worker_registry ?header ?body 3 s0 "[0, 0, 0]"] s0 q2
  have e2: "enqueues 3 (events (run worker_registry [0, 0, 0] s0))
       = [(''aggregate_results'', [PList [PInt 9, PFloat 3]])]"
    unfolding Let_def u r2 by simp
  from chord_fan_in [of worker_registry ?header ?body 3 s0 "[]"] s0
  have ids: "map task_id (queue s0) = [1, 2]"
    unfolding Let_def u by simp
  show ?thesis
    by (rule exI [of _ s0]) (intro conjI c q1 q2 e1 e2 ids)
qed

end
